theory Spec2Isabelle
  imports Complex_Main
begin

section \<open>JavaScript numbers\<close>

text \<open>
  The strategy engine (\<^verbatim>\<open>src/js/optionsStrategies.js\<close>) computes with JavaScript
  numbers, which are IEEE-754 doubles. \<open>Num x\<close> is the finite number of value \<open>x\<close>;
  the three values that are not finite are kept, since the code produces them from
  finite inputs: \<^verbatim>\<open>0 / 0\<close> and arithmetic on a missing property give
  \<^verbatim>\<open>NaN\<close>, \<^verbatim>\<open>Math.min()\<close> of no arguments is \<^verbatim>\<open>Infinity\<close>, and
  \<^verbatim>\<open>calculateMaxLoss\<close> returns \<^verbatim>\<open>-Infinity\<close>. The sign of zero is not
  modelled.

  The operations of this section compute the exact result of an operation, before it is
  rounded. The next section rounds it to the nearest double. Rounding is modelled where
  the control flow depends on it, in the loop of the price grid, whose length and whose
  termination are decided by the last bit of a sum. The arithmetic of profits and
  premiums is straight-line and is modelled with the exact operations: a value stated
  for it is the code's value up to the rounding of each operation, and is the code's
  value exactly where the operands are whole dollars or binary fractions, as they are in
  every evaluated example.
\<close>

datatype jsnum = Num real | NaN | PosInfinity | NegInfinity

fun js_neg :: "jsnum \<Rightarrow> jsnum" where
  "js_neg (Num a) = Num (- a)"
| "js_neg NaN = NaN"
| "js_neg PosInfinity = NegInfinity"
| "js_neg NegInfinity = PosInfinity"

fun js_add :: "jsnum \<Rightarrow> jsnum \<Rightarrow> jsnum" where
  "js_add (Num a) (Num b) = Num (a + b)"
| "js_add NaN y = NaN"
| "js_add x NaN = NaN"
| "js_add PosInfinity NegInfinity = NaN"
| "js_add NegInfinity PosInfinity = NaN"
| "js_add PosInfinity y = PosInfinity"
| "js_add NegInfinity y = NegInfinity"
| "js_add (Num a) y = y"

definition js_sub :: "jsnum \<Rightarrow> jsnum \<Rightarrow> jsnum" where
  "js_sub x y = js_add x (js_neg y)"

text \<open>The sign of a number that is not \<^verbatim>\<open>NaN\<close>: -1, 0 or 1.\<close>

fun js_sign :: "jsnum \<Rightarrow> int" where
  "js_sign (Num a) = (if a < 0 then - 1 else if a = 0 then 0 else 1)"
| "js_sign PosInfinity = 1"
| "js_sign NegInfinity = - 1"
| "js_sign NaN = 0"

fun js_mul :: "jsnum \<Rightarrow> jsnum \<Rightarrow> jsnum" where
  "js_mul (Num a) (Num b) = Num (a * b)"
| "js_mul NaN y = NaN"
| "js_mul x NaN = NaN"
| "js_mul x y =
     (if js_sign x * js_sign y = 0 then NaN
      else if js_sign x * js_sign y = 1 then PosInfinity else NegInfinity)"

text \<open>
  Division: a finite number divided by zero is an infinity of the dividend's sign (the
  divisors of this program are sums of absolute values, never a negative zero), and
  \<^verbatim>\<open>0 / 0\<close> is \<^verbatim>\<open>NaN\<close>.
\<close>

fun js_div :: "jsnum \<Rightarrow> jsnum \<Rightarrow> jsnum" where
  "js_div (Num a) (Num b) =
     (if b \<noteq> 0 then Num (a / b)
      else if a = 0 then NaN else if 0 < a then PosInfinity else NegInfinity)"
| "js_div NaN y = NaN"
| "js_div x NaN = NaN"
| "js_div (Num a) y = Num 0"
| "js_div x (Num b) =
     (if js_sign x * (if b < 0 then - 1 else 1) = 1 then PosInfinity else NegInfinity)"
| "js_div x y = NaN"

fun js_abs :: "jsnum \<Rightarrow> jsnum" where
  "js_abs (Num a) = Num \<bar>a\<bar>"
| "js_abs NaN = NaN"
| "js_abs PosInfinity = PosInfinity"
| "js_abs NegInfinity = PosInfinity"

text \<open>Comparisons: every comparison with \<^verbatim>\<open>NaN\<close> is false, also \<^verbatim>\<open>NaN === NaN\<close>.\<close>

fun js_lt :: "jsnum \<Rightarrow> jsnum \<Rightarrow> bool" where
  "js_lt (Num a) (Num b) = (a < b)"
| "js_lt NaN y = False"
| "js_lt x NaN = False"
| "js_lt x NegInfinity = False"
| "js_lt PosInfinity y = False"
| "js_lt x y = True"

fun js_eq :: "jsnum \<Rightarrow> jsnum \<Rightarrow> bool" where
  "js_eq NaN y = False"
| "js_eq x NaN = False"
| "js_eq x y = (x = y)"

definition js_le :: "jsnum \<Rightarrow> jsnum \<Rightarrow> bool" where
  "js_le x y = (js_lt x y \<or> js_eq x y)"

definition js_ge :: "jsnum \<Rightarrow> jsnum \<Rightarrow> bool" where
  "js_ge x y = js_le y x"

text \<open>\<^verbatim>\<open>Math.max\<close> and \<^verbatim>\<open>Math.min\<close> of two numbers: \<^verbatim>\<open>NaN\<close> when either is.\<close>

fun js_max :: "jsnum \<Rightarrow> jsnum \<Rightarrow> jsnum" where
  "js_max NaN y = NaN"
| "js_max x NaN = NaN"
| "js_max x y = (if js_lt x y then y else x)"

fun js_min :: "jsnum \<Rightarrow> jsnum \<Rightarrow> jsnum" where
  "js_min NaN y = NaN"
| "js_min x NaN = NaN"
| "js_min x y = (if js_lt y x then y else x)"

text \<open>
  A property of an object that may be missing is a \<^typ>\<open>real option\<close>; read in
  arithmetic, \<^verbatim>\<open>undefined\<close> is \<^verbatim>\<open>NaN\<close>.
\<close>

fun to_number :: "real option \<Rightarrow> jsnum" where
  "to_number None = NaN"
| "to_number (Some a) = Num a"

text \<open>
  \<^verbatim>\<open>x || d\<close> on a property and a default: the default replaces a missing property and
  also a present zero, since \<^verbatim>\<open>0\<close> is falsy.
\<close>

fun or_default :: "real option \<Rightarrow> real \<Rightarrow> real" where
  "or_default None d = d"
| "or_default (Some a) d = (if a = 0 then d else a)"

text \<open>\<^verbatim>\<open>!x\<close> on a property: true when it is missing or zero.\<close>

fun falsy :: "real option \<Rightarrow> bool" where
  "falsy None = True"
| "falsy (Some a) = (a = 0)"

text \<open>
  An array read \<^verbatim>\<open>xs[i]\<close>: \<^verbatim>\<open>undefined\<close> out of range (also at a negative
  index), which every comparison of this program treats as \<^verbatim>\<open>NaN\<close>.
\<close>

definition js_nth :: "jsnum list \<Rightarrow> int \<Rightarrow> jsnum" where
  "js_nth xs i = (if 0 \<le> i \<and> i < int (length xs) then xs ! nat i else NaN)"

section \<open>Doubles\<close>

text \<open>
  The nearest integer, a tie going to the even neighbour.
\<close>

definition round_half_even :: "real \<Rightarrow> int" where
  "round_half_even y =
     (if y - of_int \<lfloor>y\<rfloor> < 1 / 2 then \<lfloor>y\<rfloor>
      else if 1 / 2 < y - of_int \<lfloor>y\<rfloor> then \<lfloor>y\<rfloor> + 1
      else if even \<lfloor>y\<rfloor> then \<lfloor>y\<rfloor> else \<lfloor>y\<rfloor> + 1)"

text \<open>
  The binary exponent of a real in the format of a double: the largest \<open>e\<close> from -1022
  to 1023 with \<open>2 ^ e \<le> |x|\<close>, and -1022 below the normal range. The scan tries the
  exponents from the top.
\<close>

primrec scan_exponent :: "nat \<Rightarrow> real \<Rightarrow> int" where
  "scan_exponent 0 x = - 1022"
| "scan_exponent (Suc n) x =
     (if 2 powi (int n - 1021) \<le> \<bar>x\<bar> then int n - 1021 else scan_exponent n x)"

definition binary_exponent :: "real \<Rightarrow> int" where
  "binary_exponent x = scan_exponent 2045 x"

text \<open>
  Rounding to a significand of 53 bits: doubles of exponent \<open>e\<close> are the multiples of
  \<open>2 ^ (e - 52)\<close>, and a real is rounded to the nearest of them, a tie to the even
  one. Below the normal range the spacing stays \<open>2 ^ -1074\<close> (subnormal numbers). A
  result of magnitude \<open>2 ^ 1024\<close> or more overflows to an infinity.
\<close>

definition round_real :: "real \<Rightarrow> real" where
  "round_real x =
     of_int (round_half_even (x / 2 powi (binary_exponent x - 52))) * 2 powi (binary_exponent x - 52)"

definition round_double :: "real \<Rightarrow> jsnum" where
  "round_double x =
     (if 2 powi 1024 \<le> \<bar>round_real x\<bar>
      then (if 0 < round_real x then PosInfinity else NegInfinity)
      else Num (round_real x))"

fun rounded :: "jsnum \<Rightarrow> jsnum" where
  "rounded (Num x) = round_double x"
| "rounded NaN = NaN"
| "rounded PosInfinity = PosInfinity"
| "rounded NegInfinity = NegInfinity"

text \<open>
  The four operations on doubles, \<^verbatim>\<open>+\<close>, \<^verbatim>\<open>-\<close>, \<^verbatim>\<open>*\<close> and \<^verbatim>\<open>/\<close>: the
  exact result, rounded.
\<close>

definition dbl_add :: "jsnum \<Rightarrow> jsnum \<Rightarrow> jsnum" where
  "dbl_add x y = rounded (js_add x y)"

definition dbl_sub :: "jsnum \<Rightarrow> jsnum \<Rightarrow> jsnum" where
  "dbl_sub x y = rounded (js_sub x y)"

definition dbl_mul :: "jsnum \<Rightarrow> jsnum \<Rightarrow> jsnum" where
  "dbl_mul x y = rounded (js_mul x y)"

definition dbl_div :: "jsnum \<Rightarrow> jsnum \<Rightarrow> jsnum" where
  "dbl_div x y = rounded (js_div x y)"

section \<open>Data model\<close>

text \<open>
  The strings \<^verbatim>\<open>'buy'\<close>, \<^verbatim>\<open>'sell'\<close>, \<^verbatim>\<open>'own'\<close> and
  \<^verbatim>\<open>'call'\<close>, \<^verbatim>\<open>'put'\<close>, \<^verbatim>\<open>'stock'\<close> of the catalogue are two
  enumerations; the code compares them with \<^verbatim>\<open>===\<close> only.
\<close>

datatype action = Buy | Sell | Own

datatype instrument = Call | Put | Stock

text \<open>A leg of a strategy definition (\<^verbatim>\<open>strategy.legs[i]\<close>).\<close>

record strategy_leg =
  action :: action
  type :: instrument
  quantity :: real
  strikeOffset :: "real option"

text \<open>
  A strategy of the catalogue. The name is kept; the description, complexity and risk
  level are display strings that no computation reads.
\<close>

record strategy =
  name :: string
  legs :: "strategy_leg list"

text \<open>
  A concrete leg as the caller passes it: an option leg carries strike, premium and its
  pricing assumptions, a stock leg its cost basis. Any property can be missing.
\<close>

record leg =
  strike :: "real option"
  premium :: "real option"
  costBasis :: "real option"
  riskFreeRate :: "real option"
  volatility :: "real option"

text \<open>The object handed to \<^verbatim>\<open>BlackScholes.getOptionPrice\<close>.\<close>

record bs_option =
  opt_type :: instrument
  opt_strike :: "real option"
  opt_timeToExpiry :: real
  opt_riskFreeRate :: real
  opt_volatility :: real

text \<open>
  \<^verbatim>\<open>BlackScholes.getOptionPrice(option, stockPrice, timeToExpiry)\<close> is not among the
  sources, so the pricer is a parameter of every function that can reach it. It returns
  a number or throws (\<open>Inl\<close>).
\<close>

type_synonym 'e pricer = "bs_option \<Rightarrow> jsnum \<Rightarrow> real \<Rightarrow> 'e + jsnum"

section \<open>The strategy catalogue\<close>

text \<open>
  The entries of \<^verbatim>\<open>OptionsStrategies.strategies\<close> that the statements below use,
  as the table gives them (keys \<^verbatim>\<open>long-call\<close>, \<^verbatim>\<open>short-call\<close>,
  \<^verbatim>\<open>bull-call-spread\<close>, \<^verbatim>\<open>covered-call\<close>); the other twelve entries have
  the same shape.
\<close>

definition long_call :: strategy where
  "long_call = \<lparr>name = ''Long Call'',
     legs = [\<lparr>action = Buy, type = Call, quantity = 1, strikeOffset = None\<rparr>]\<rparr>"

definition short_call :: strategy where
  "short_call = \<lparr>name = ''Short Call'',
     legs = [\<lparr>action = Sell, type = Call, quantity = 1, strikeOffset = None\<rparr>]\<rparr>"

definition bull_call_spread :: strategy where
  "bull_call_spread = \<lparr>name = ''Bull Call Spread'',
     legs = [\<lparr>action = Buy, type = Call, quantity = 1, strikeOffset = Some 0\<rparr>,
             \<lparr>action = Sell, type = Call, quantity = 1, strikeOffset = Some 5\<rparr>]\<rparr>"

definition covered_call :: strategy where
  "covered_call = \<lparr>name = ''Covered Call'',
     legs = [\<lparr>action = Own, type = Stock, quantity = 100, strikeOffset = None\<rparr>,
             \<lparr>action = Sell, type = Call, quantity = 1, strikeOffset = None\<rparr>]\<rparr>"

section \<open>Profit and loss at one price\<close>

text \<open>The arguments of the pricer call in \<^verbatim>\<open>calculateProfitLoss\<close> (lines 216-222).\<close>

definition pricer_option :: "strategy_leg \<Rightarrow> leg \<Rightarrow> real \<Rightarrow> bs_option" where
  "pricer_option strategyLeg leg timeToExpiry =
     \<lparr>opt_type = type strategyLeg,
      opt_strike = strike leg,
      opt_timeToExpiry = timeToExpiry,
      opt_riskFreeRate = or_default (riskFreeRate leg) (5 / 100),
      opt_volatility = or_default (volatility leg) (25 / 100)\<rparr>"

text \<open>The value of an option leg: intrinsic at expiration, the pricer's otherwise.\<close>

definition optionValue :: "'e pricer \<Rightarrow> strategy_leg \<Rightarrow> leg \<Rightarrow> jsnum \<Rightarrow> real \<Rightarrow> 'e + jsnum" where
  "optionValue getOptionPrice strategyLeg leg stockPrice timeToExpiry =
     (if timeToExpiry = 0 then
        (if type strategyLeg = Call
         then Inr (js_max (js_sub stockPrice (to_number (strike leg))) (Num 0))
         else Inr (js_max (js_sub (to_number (strike leg)) stockPrice) (Num 0)))
      else getOptionPrice (pricer_option strategyLeg leg timeToExpiry) stockPrice timeToExpiry)"

text \<open>The body of the \<^verbatim>\<open>forEach\<close> callback: the profit or loss of one leg.\<close>

definition legPL :: "'e pricer \<Rightarrow> strategy_leg \<Rightarrow> leg \<Rightarrow> jsnum \<Rightarrow> real \<Rightarrow> 'e + jsnum" where
  "legPL getOptionPrice strategyLeg leg stockPrice timeToExpiry =
     (if type strategyLeg = Stock then
        (if action strategyLeg = Own
         then Inr (js_mul (js_sub stockPrice (to_number (costBasis leg)))
                     (Num (quantity strategyLeg)))
         else Inr (Num 0))
      else
        (case optionValue getOptionPrice strategyLeg leg stockPrice timeToExpiry of
           Inl e \<Rightarrow> Inl e
         | Inr v \<Rightarrow>
             (if action strategyLeg = Buy
              then Inr (js_mul (js_mul (js_sub v (to_number (premium leg)))
                          (Num (quantity strategyLeg))) (Num 100))
              else if action strategyLeg = Sell
              then Inr (js_mul (js_mul (js_sub (to_number (premium leg)) v)
                          (Num (quantity strategyLeg))) (Num 100))
              else Inr (Num 0))))"

text \<open>
  \<^verbatim>\<open>legs.forEach((leg, index) => ...)\<close>: a leg with no strategy leg at its index is
  skipped; a throw of the pricer leaves the loop.
\<close>

fun pl_loop :: "'e pricer \<Rightarrow> strategy \<Rightarrow> leg list \<Rightarrow> nat \<Rightarrow> jsnum \<Rightarrow> real \<Rightarrow> jsnum \<Rightarrow> 'e + jsnum" where
  "pl_loop getOptionPrice strategy [] index stockPrice timeToExpiry totalPL = Inr totalPL"
| "pl_loop getOptionPrice strategy (leg # rest) index stockPrice timeToExpiry totalPL =
     (if index < length (legs strategy) then
        (case legPL getOptionPrice (legs strategy ! index) leg stockPrice timeToExpiry of
           Inl e \<Rightarrow> Inl e
         | Inr pl \<Rightarrow>
             pl_loop getOptionPrice strategy rest (Suc index) stockPrice timeToExpiry
               (js_add totalPL pl))
      else pl_loop getOptionPrice strategy rest (Suc index) stockPrice timeToExpiry totalPL)"

definition calculateProfitLoss :: "'e pricer \<Rightarrow> strategy \<Rightarrow> leg list \<Rightarrow> jsnum \<Rightarrow> real \<Rightarrow> 'e + jsnum" where
  "calculateProfitLoss getOptionPrice strategy legInstances stockPrice timeToExpiry =
     pl_loop getOptionPrice strategy legInstances 0 stockPrice timeToExpiry (Num 0)"

text \<open>\<^verbatim>\<open>calculateProfitLossArray\<close>: \<^verbatim>\<open>stockPrices.map(price => ...)\<close>.\<close>

fun calculateProfitLossArray :: "'e pricer \<Rightarrow> strategy \<Rightarrow> leg list \<Rightarrow> jsnum list \<Rightarrow> real \<Rightarrow> 'e + jsnum list" where
  "calculateProfitLossArray getOptionPrice strategy legInstances [] timeToExpiry = Inr []"
| "calculateProfitLossArray getOptionPrice strategy legInstances (price # rest) timeToExpiry =
     (case calculateProfitLoss getOptionPrice strategy legInstances price timeToExpiry of
        Inl e \<Rightarrow> Inl e
      | Inr pl \<Rightarrow>
          (case calculateProfitLossArray getOptionPrice strategy legInstances rest timeToExpiry of
             Inl e \<Rightarrow> Inl e
           | Inr pls \<Rightarrow> Inr (pl # pls)))"

section \<open>The price grid\<close>

text \<open>
  \<^verbatim>\<open>Math.round\<close>: the nearest integer, a tie going up. The result is exact: a double
  below \<open>2 ^ 52\<close> in magnitude rounds to an integer that is a double, and a larger
  double is an integer already.
\<close>

definition js_round :: "real \<Rightarrow> real" where
  "js_round x = of_int \<lfloor>x + 1 / 2\<rfloor>"

fun math_round :: "jsnum \<Rightarrow> jsnum" where
  "math_round (Num x) = Num (js_round x)"
| "math_round x = x"

text \<open>
  The loop of \<^verbatim>\<open>generatePriceRange\<close>:
  \<^verbatim>\<open>for (let price = minPrice; price <= maxPrice; price += step) prices.push(...)\<close>,
  on doubles. Nothing in the source bounds the number of iterations, so the loop is a
  partial function: \<open>None\<close> is a loop that never leaves (the script then pushes until
  the engine gives up on the array).
\<close>

partial_function (option) price_loop :: "jsnum \<Rightarrow> jsnum \<Rightarrow> jsnum \<Rightarrow> jsnum list \<Rightarrow> jsnum list option" where
  "price_loop price maxPrice step prices =
     (if js_le price maxPrice
      then price_loop (dbl_add price step) maxPrice step
             (prices @ [dbl_div (math_round (dbl_mul price (Num 100))) (Num 100)])
      else Some prices)"

text \<open>
  \<^verbatim>\<open>generatePriceRange(currentPrice, rangeFactor)\<close>. The two arguments are the values
  of the doubles the caller passes.
\<close>

definition generatePriceRange :: "real \<Rightarrow> real \<Rightarrow> jsnum list option" where
  "generatePriceRange currentPrice rangeFactor =
     (let minPrice = dbl_mul (Num currentPrice) (dbl_sub (Num 2) (Num rangeFactor));
          maxPrice = dbl_mul (Num currentPrice) (Num rangeFactor);
          step = dbl_div (dbl_sub maxPrice minPrice) (Num 200)
      in price_loop minPrice maxPrice step [])"

section \<open>Breakevens\<close>

text \<open>
  The scan of \<^verbatim>\<open>findBreakevens\<close>, \<^verbatim>\<open>for (let i = 1; i < profits.length; i++)\<close>:
  a pair of neighbours of opposite sign, zero included on both sides, is a crossing, and
  the breakeven is interpolated between the two prices.
\<close>

definition crossing :: "jsnum list \<Rightarrow> nat \<Rightarrow> bool" where
  "crossing profits i =
     ((js_le (js_nth profits (int i - 1)) (Num 0) \<and> js_ge (js_nth profits (int i)) (Num 0)) \<or>
      (js_ge (js_nth profits (int i - 1)) (Num 0) \<and> js_le (js_nth profits (int i)) (Num 0)))"

definition divisor :: "jsnum list \<Rightarrow> nat \<Rightarrow> jsnum" where
  "divisor profits i =
     js_add (js_abs (js_nth profits (int i - 1))) (js_abs (js_nth profits (int i)))"

definition interpolate :: "jsnum list \<Rightarrow> jsnum list \<Rightarrow> nat \<Rightarrow> jsnum" where
  "interpolate priceRange profits i =
     (let ratio = js_div (js_abs (js_nth profits (int i - 1))) (divisor profits i)
      in js_add (js_nth priceRange (int i - 1))
           (js_mul ratio (js_sub (js_nth priceRange (int i)) (js_nth priceRange (int i - 1)))))"

function breakeven_loop :: "jsnum list \<Rightarrow> jsnum list \<Rightarrow> nat \<Rightarrow> jsnum list \<Rightarrow> jsnum list" where
  "breakeven_loop priceRange profits i breakevens =
     (if i < length profits then
        (if crossing profits i
         then breakeven_loop priceRange profits (i + 1)
                (breakevens @ [interpolate priceRange profits i])
         else breakeven_loop priceRange profits (i + 1) breakevens)
      else breakevens)"
  by pat_completeness auto
termination
  by (relation "measure (\<lambda>(priceRange, profits, i, breakevens). length profits - i)") auto

declare breakeven_loop.simps [simp del]

text \<open>
  \<^verbatim>\<open>findBreakevens\<close>: the outer \<open>option\<close> is the grid's loop returning, the sum a
  throw of the pricer. The grid is the default one, \<^verbatim>\<open>rangeFactor = 1.5\<close>.
\<close>

definition findBreakevens :: "'e pricer \<Rightarrow> strategy \<Rightarrow> leg list \<Rightarrow> real \<Rightarrow> ('e + jsnum list) option" where
  "findBreakevens getOptionPrice strategy legInstances currentPrice =
     (case generatePriceRange currentPrice (3 / 2) of
        None \<Rightarrow> None
      | Some priceRange \<Rightarrow>
          (case calculateProfitLossArray getOptionPrice strategy legInstances priceRange 0 of
             Inl e \<Rightarrow> Some (Inl e)
           | Inr profits \<Rightarrow> Some (Inr (breakeven_loop priceRange profits 1 []))))"

section \<open>Maximum loss\<close>

text \<open>\<^verbatim>\<open>Math.min(...profits)\<close>: \<^verbatim>\<open>Infinity\<close> for no argument.\<close>

definition js_min_list :: "jsnum list \<Rightarrow> jsnum" where
  "js_min_list xs = foldl js_min PosInfinity xs"

definition unlimited_loss :: "jsnum list \<Rightarrow> jsnum \<Rightarrow> bool" where
  "unlimited_loss profits maxLoss =
     ((js_lt (js_nth profits 0) (js_nth profits 1) \<and> js_eq (js_nth profits 0) maxLoss) \<or>
      (js_lt (js_nth profits (int (length profits) - 1)) (js_nth profits (int (length profits) - 2)) \<and>
       js_eq (js_nth profits (int (length profits) - 1)) maxLoss))"

definition calculateMaxLoss :: "'e pricer \<Rightarrow> strategy \<Rightarrow> leg list \<Rightarrow> real \<Rightarrow> ('e + jsnum) option" where
  "calculateMaxLoss getOptionPrice strategy legInstances currentPrice =
     (case generatePriceRange currentPrice 2 of
        None \<Rightarrow> None
      | Some priceRange \<Rightarrow>
          (case calculateProfitLossArray getOptionPrice strategy legInstances priceRange 0 of
             Inl e \<Rightarrow> Some (Inl e)
           | Inr profits \<Rightarrow>
               (let maxLoss = js_min_list profits
                in if unlimited_loss profits maxLoss then Some (Inr NegInfinity)
                   else Some (Inr maxLoss))))"

section \<open>Net premium\<close>

text \<open>
  \<^verbatim>\<open>calculateNetPremium\<close>: the \<^verbatim>\<open>forEach\<close> skips a leg with no strategy leg and a
  stock leg; a bought option adds its premium, a sold one subtracts it.
\<close>

fun premium_loop :: "strategy \<Rightarrow> leg list \<Rightarrow> nat \<Rightarrow> jsnum \<Rightarrow> jsnum" where
  "premium_loop strategy [] index netPremium = netPremium"
| "premium_loop strategy (leg # rest) index netPremium =
     (if \<not> index < length (legs strategy) then premium_loop strategy rest (Suc index) netPremium
      else if type (legs strategy ! index) = Stock
      then premium_loop strategy rest (Suc index) netPremium
      else if action (legs strategy ! index) = Buy
      then premium_loop strategy rest (Suc index)
             (js_add netPremium
                (js_mul (js_mul (to_number (premium leg)) (Num (quantity (legs strategy ! index))))
                   (Num 100)))
      else if action (legs strategy ! index) = Sell
      then premium_loop strategy rest (Suc index)
             (js_sub netPremium
                (js_mul (js_mul (to_number (premium leg)) (Num (quantity (legs strategy ! index))))
                   (Num 100)))
      else premium_loop strategy rest (Suc index) netPremium)"

definition calculateNetPremium :: "strategy \<Rightarrow> leg list \<Rightarrow> jsnum" where
  "calculateNetPremium strategy legInstances = premium_loop strategy legInstances 0 (Num 0)"

section \<open>Validation\<close>

record validation_result =
  isValid :: bool
  errors :: "string list"

text \<open>The decimal digits of an index, for the template literal \<^verbatim>\<open>Leg ${index + 1}\<close>.\<close>

fun show_nat :: "nat \<Rightarrow> string" where
  "show_nat n =
     (if n < 10 then [''0123456789'' ! n]
      else show_nat (n div 10) @ [''0123456789'' ! (n mod 10)])"

text \<open>
  The \<^verbatim>\<open>forEach\<close> of \<^verbatim>\<open>validateStrategy\<close>: for an option leg,
  \<^verbatim>\<open>!leg.strike || leg.strike <= 0\<close> and \<^verbatim>\<open>!leg.premium || leg.premium < 0\<close>
  each push a message.
\<close>

definition strike_errors :: "leg \<Rightarrow> nat \<Rightarrow> string list" where
  "strike_errors leg index =
     (if falsy (strike leg) \<or> js_le (to_number (strike leg)) (Num 0)
      then [''Leg '' @ show_nat (index + 1) @ '': Invalid strike price''] else [])"

definition premium_errors :: "leg \<Rightarrow> nat \<Rightarrow> string list" where
  "premium_errors leg index =
     (if falsy (premium leg) \<or> js_lt (to_number (premium leg)) (Num 0)
      then [''Leg '' @ show_nat (index + 1) @ '': Invalid premium''] else [])"

fun validate_loop :: "strategy \<Rightarrow> leg list \<Rightarrow> nat \<Rightarrow> string list \<Rightarrow> string list" where
  "validate_loop strategy [] index errs = errs"
| "validate_loop strategy (leg # rest) index errs =
     (if \<not> index < length (legs strategy) then validate_loop strategy rest (Suc index) errs
      else if type (legs strategy ! index) \<noteq> Stock
      then validate_loop strategy rest (Suc index)
             (errs @ strike_errors leg index @ premium_errors leg index)
      else validate_loop strategy rest (Suc index) errs)"

text \<open>\<^verbatim>\<open>validateStrategy\<close>; a strategy that is \<^verbatim>\<open>null\<close> is \<open>None\<close>.\<close>

definition validateStrategy :: "strategy option \<Rightarrow> leg list \<Rightarrow> validation_result" where
  "validateStrategy strategy legInstances =
     (case strategy of
        None \<Rightarrow> \<lparr>isValid = False, errors = [''Invalid strategy selected'']\<rparr>
      | Some s \<Rightarrow>
          (let errs0 = (if length legInstances \<noteq> length (legs s)
                        then [''Number of legs does not match strategy requirements''] else []);
               errs = validate_loop s legInstances 0 errs0
           in \<lparr>isValid = (length errs = 0), errors = errs\<rparr>))"

section \<open>Definitions for the statements\<close>

text \<open>
  A number that is a double: rounding leaves it as it is. The arguments of a call are
  doubles; the statements about every call say so.
\<close>

definition is_double :: "real \<Rightarrow> bool" where
  "is_double x = (round_double x = Num x)"

text \<open>
  A current price in the range of magnitudes \<open>2 ^ -1000\<close> to \<open>2 ^ 1000\<close>: no
  intermediate result of the grid overflows or leaves the normal range there. The
  extreme prices beyond it behave differently; at \<open>2 ^ 1023\<close> the upper end of the
  wide grid is \<^verbatim>\<open>Infinity\<close>.
\<close>

definition ordinary_price :: "real \<Rightarrow> bool" where
  "ordinary_price currentPrice =
     (is_double currentPrice \<and> 2 powi (- 1000) \<le> currentPrice \<and> currentPrice \<le> 2 powi 1000)"

text \<open>A price rounded to cents, as the loop of the grid pushes it.\<close>

definition cents :: "jsnum \<Rightarrow> jsnum" where
  "cents price = dbl_div (math_round (dbl_mul price (Num 100))) (Num 100)"

text \<open>
  Concrete legs, in the shape \<^verbatim>\<open>generateDefaultLegs\<close> gives them under the
  application's default market parameters (rate 5 percent, volatility 25 percent).
\<close>

definition option_leg :: "real \<Rightarrow> real \<Rightarrow> leg" where
  "option_leg k p =
     \<lparr>strike = Some k, premium = Some p, costBasis = None,
      riskFreeRate = Some (5 / 100), volatility = Some (25 / 100)\<rparr>"

definition stock_leg :: "real \<Rightarrow> leg" where
  "stock_leg c =
     \<lparr>strike = None, premium = None, costBasis = Some c,
      riskFreeRate = Some (5 / 100), volatility = Some (25 / 100)\<rparr>"

text \<open>
  The data model's invariant on a leg list: one leg for every leg of the strategy, each
  with the properties of its instrument, a stock leg its cost basis and an option leg its
  strike and premium. This is what the claims call a valid leg list.
\<close>

definition shape_matches :: "strategy_leg \<Rightarrow> leg \<Rightarrow> bool" where
  "shape_matches strategyLeg leg =
     (if type strategyLeg = Stock then costBasis leg \<noteq> None
      else strike leg \<noteq> None \<and> premium leg \<noteq> None)"

definition well_formed :: "strategy \<Rightarrow> leg list \<Rightarrow> bool" where
  "well_formed strategy legInstances = list_all2 shape_matches (legs strategy) legInstances"

text \<open>
  The expiration curves of two positions on the default grid of a current price of 100,
  whose \<open>k\<close>-th price is \<open>50 + k / 2\<close>: the long call (strike 100, premium 5) and
  the bull call spread (bought call: strike 100, premium 5; sold call: strike 105,
  premium 5), each as \<^verbatim>\<open>calculateProfitLoss\<close> adds it up from zero.
\<close>

definition long_call_curve :: "nat \<Rightarrow> real" where
  "long_call_curve k = (max (50 + real k / 2 - 100) 0 - 5) * 1 * 100"

definition bull_spread_curve :: "nat \<Rightarrow> real" where
  "bull_spread_curve k =
     0 + (max (50 + real k / 2 - 100) 0 - 5) * 1 * 100 + (5 - max (50 + real k / 2 - 105) 0) * 1 * 100"

text \<open>
  The expiration curves of the long call and of the short call (strike 100, premium 5)
  on the wide grid of a current price of 100, whose \<open>k\<close>-th price is \<open>k\<close>.
\<close>

definition long_call_wide_curve :: "nat \<Rightarrow> real" where
  "long_call_wide_curve k = (max (real k - 100) 0 - 5) * 1 * 100"

definition short_call_curve :: "nat \<Rightarrow> real" where
  "short_call_curve k = (5 - max (real k - 100) 0) * 1 * 100"

text \<open>
  Two stand-ins for the pricer, to close statements. The first keeps the pricer's
  contract on volatility (a throw when it is not positive) and otherwise returns the
  volatility it was called with; the second returns the rate it was called with. A
  result computed through them shows which volatility and which rate reached the
  pricer. Of the legs below, one stores a rate of zero, one a volatility of zero, and
  one a rate of 3 percent and a volatility of 40 percent.
\<close>

definition volatility_probe :: "string pricer" where
  "volatility_probe option stockPrice timeToExpiry =
     (if opt_volatility option \<le> 0 then Inl ''volatility must be positive''
      else Inr (Num (opt_volatility option)))"

definition rate_probe :: "string pricer" where
  "rate_probe option stockPrice timeToExpiry = Inr (Num (opt_riskFreeRate option))"

definition zero_rate_leg :: leg where
  "zero_rate_leg =
     \<lparr>strike = Some 100, premium = Some 0, costBasis = None,
      riskFreeRate = Some 0, volatility = Some (25 / 100)\<rparr>"

definition flat_volatility_leg :: leg where
  "flat_volatility_leg =
     \<lparr>strike = Some 100, premium = Some 0, costBasis = None,
      riskFreeRate = Some (5 / 100), volatility = Some 0\<rparr>"

definition priced_leg :: leg where
  "priced_leg =
     \<lparr>strike = Some 100, premium = Some 5, costBasis = None,
      riskFreeRate = Some (3 / 100), volatility = Some (40 / 100)\<rparr>"

text \<open>
  The net premium in the words of its description: the sum over the legs paired with a
  strategy leg, an option bought adding \<open>premium * quantity * 100\<close>, an option sold
  subtracting it, a stock leg adding nothing. \<open>net_premium_sum\<close> adds JavaScript
  numbers, \<open>real_contribution\<close> is the same term over the reals for a leg whose
  premium is present.
\<close>

definition premium_contribution :: "strategy_leg \<Rightarrow> leg \<Rightarrow> jsnum" where
  "premium_contribution strategyLeg leg =
     (if type strategyLeg = Stock then Num 0
      else if action strategyLeg = Buy
      then js_mul (js_mul (to_number (premium leg)) (Num (quantity strategyLeg))) (Num 100)
      else if action strategyLeg = Sell
      then js_neg (js_mul (js_mul (to_number (premium leg)) (Num (quantity strategyLeg))) (Num 100))
      else Num 0)"

definition net_premium_sum :: "strategy \<Rightarrow> leg list \<Rightarrow> jsnum" where
  "net_premium_sum strategy legInstances =
     foldr js_add (map (\<lambda>(strategyLeg, leg). premium_contribution strategyLeg leg)
                     (zip (legs strategy) legInstances)) (Num 0)"

definition real_contribution :: "strategy_leg \<Rightarrow> leg \<Rightarrow> real" where
  "real_contribution strategyLeg leg =
     (if type strategyLeg = Stock then 0
      else if action strategyLeg = Buy then the (premium leg) * quantity strategyLeg * 100
      else if action strategyLeg = Sell then - (the (premium leg) * quantity strategyLeg * 100)
      else 0)"

text \<open>
  The messages one leg adds in \<^verbatim>\<open>validateStrategy\<close>.
\<close>

definition leg_errors :: "strategy \<Rightarrow> nat \<Rightarrow> leg \<Rightarrow> string list" where
  "leg_errors strategy index leg =
     (if index < length (legs strategy) \<and> type (legs strategy ! index) \<noteq> Stock
      then strike_errors leg index @ premium_errors leg index else [])"

section \<open>Arithmetic on finite numbers\<close>

lemma js_max_Num [simp]: "js_max (Num a) (Num b) = Num (max a b)"
  by (simp add: max_def)

lemma js_min_Num [simp]: "js_min (Num a) (Num b) = Num (min a b)"
  by (simp add: min_def)

lemma js_sub_Num [simp]: "js_sub (Num a) (Num b) = Num (a - b)"
  by (simp add: js_sub_def)

lemma js_le_Num [simp]: "js_le (Num a) (Num b) = (a \<le> b)"
  by (auto simp: js_le_def)

lemma js_ge_Num [simp]: "js_ge (Num a) (Num b) = (b \<le> a)"
  by (simp add: js_ge_def)

lemma js_add_assoc: "js_add (js_add a b) c = js_add a (js_add b c)"
  by (cases a; cases b; cases c) simp_all

lemma js_add_zero [simp]: "js_add a (Num 0) = a"
  by (cases a) simp_all

lemma js_zero_add [simp]: "js_add (Num 0) a = a"
  by (cases a) simp_all

lemma js_nth_samples:
  assumes "i < n"
  shows "js_nth (map (\<lambda>k. Num (g k)) [0..<n]) (int i) = Num (g i)"
  using assms by (simp add: js_nth_def)

lemma js_nth_samples_pred:
  assumes "0 < i" "i \<le> n"
  shows "js_nth (map (\<lambda>k. Num (g k)) [0..<n]) (int i - 1) = Num (g (i - 1))"
proof -
  from assms have e: "int i - 1 = int (i - 1)" by simp
  from assms have "i - 1 < n" by simp
  then show ?thesis unfolding e by (rule js_nth_samples)
qed

section \<open>Rounding\<close>

subsection \<open>The binary exponent\<close>

lemma scan_exponent_range: "- 1022 \<le> scan_exponent n x \<and> scan_exponent n x \<le> int n - 1022"
  by (induction n) auto

lemma scan_exponent_lower:
  "2 powi (- 1022) \<le> \<bar>x\<bar> \<Longrightarrow> 2 powi (scan_exponent n x) \<le> \<bar>x\<bar>"
  by (induction n) auto

lemma scan_exponent_upper:
  "\<bar>x\<bar> < 2 powi (int n - 1021) \<Longrightarrow> \<bar>x\<bar> < 2 powi (scan_exponent n x + 1)"
proof (induction n)
  case 0
  then show ?case by simp
next
  case (Suc n)
  show ?case
  proof (cases "2 powi (int n - 1021) \<le> \<bar>x\<bar>")
    case True
    then show ?thesis using Suc.prems by (simp add: algebra_simps)
  next
    case False
    then have "\<bar>x\<bar> < 2 powi (scan_exponent n x + 1)" using Suc.IH by simp
    then show ?thesis using False by simp
  qed
qed

lemma binary_exponent_range: "- 1022 \<le> binary_exponent x" "binary_exponent x \<le> 1023"
  using scan_exponent_range [of 2045 x] by (simp_all add: binary_exponent_def)

lemma binary_exponent_lower:
  "2 powi (- 1022) \<le> \<bar>x\<bar> \<Longrightarrow> 2 powi (binary_exponent x) \<le> \<bar>x\<bar>"
  unfolding binary_exponent_def by (rule scan_exponent_lower)

lemma binary_exponent_upper:
  "\<bar>x\<bar> < 2 powi 1024 \<Longrightarrow> \<bar>x\<bar> < 2 powi (binary_exponent x + 1)"
  unfolding binary_exponent_def using scan_exponent_upper [of x 2045] by simp

lemma powi_two_less_iff: "(2 :: real) powi a < 2 powi b \<longleftrightarrow> a < b"
proof
  assume "a < b"
  then show "(2 :: real) powi a < 2 powi b" by (intro power_int_strict_increasing) simp_all
next
  assume lt: "(2 :: real) powi a < 2 powi b"
  show "a < b"
  proof (rule ccontr)
    assume "\<not> a < b"
    then have "b \<le> a" by simp
    then have "(2 :: real) powi b \<le> 2 powi a" by (intro power_int_increasing) simp_all
    with lt show False by simp
  qed
qed

lemma powi_two_le_iff: "(2 :: real) powi a \<le> 2 powi b \<longleftrightarrow> a \<le> b"
  using powi_two_less_iff [of b a] by (auto simp: not_less [symmetric])

lemma binary_exponent_eq:
  assumes "- 1022 \<le> e" "e \<le> 1023" "2 powi e \<le> \<bar>x\<bar>" "\<bar>x\<bar> < 2 powi (e + 1)"
  shows "binary_exponent x = e"
proof -
  have "(2 :: real) powi (- 1022) \<le> 2 powi e" using assms(1) by (simp only: powi_two_le_iff)
  then have normal: "2 powi (- 1022) \<le> \<bar>x\<bar>" using assms(3) by linarith
  have "(2 :: real) powi (e + 1) \<le> 2 powi 1024" using assms(2) by (simp only: powi_two_le_iff)
  then have small: "\<bar>x\<bar> < 2 powi 1024" using assms(4) by linarith
  have "2 powi (binary_exponent x) < (2 :: real) powi (e + 1)"
    using binary_exponent_lower [OF normal] assms(4) by linarith
  then have "binary_exponent x < e + 1" by (simp only: powi_two_less_iff)
  moreover have "2 powi e < (2 :: real) powi (binary_exponent x + 1)"
    using binary_exponent_upper [OF small] assms(3) by linarith
  then have "e < binary_exponent x + 1" by (simp only: powi_two_less_iff)
  ultimately show ?thesis by linarith
qed

lemma binary_exponent_subnormal:
  assumes "\<bar>x\<bar> < 2 powi (- 1022)"
  shows "binary_exponent x = - 1022"
proof -
  have "(2 :: real) powi (- 1022) \<le> 2 powi 1024" by (simp only: powi_two_le_iff)
  then have "\<bar>x\<bar> < 2 powi 1024" using assms by linarith
  from binary_exponent_upper [OF this] have "\<bar>x\<bar> < 2 powi (binary_exponent x + 1)" .
  have "\<not> - 1022 < binary_exponent x"
  proof
    assume "- 1022 < binary_exponent x"
    then have n: "2 powi (- 1022) \<le> (2 :: real) powi (binary_exponent x - 1)"
      by (simp only: powi_two_le_iff)
    have "binary_exponent x = scan_exponent 2045 x" by (simp add: binary_exponent_def)
    have "\<And>n. - 1022 < scan_exponent n x \<Longrightarrow> 2 powi (scan_exponent n x) \<le> \<bar>x\<bar>"
    proof -
      fix n show "- 1022 < scan_exponent n x \<Longrightarrow> 2 powi (scan_exponent n x) \<le> \<bar>x\<bar>"
        by (induction n) auto
    qed
    from this [of 2045] \<open>- 1022 < binary_exponent x\<close>
    have "2 powi (binary_exponent x) \<le> \<bar>x\<bar>" by (simp add: binary_exponent_def)
    moreover have "(2 :: real) powi (- 1022) \<le> 2 powi (binary_exponent x)"
      using \<open>- 1022 < binary_exponent x\<close> by (simp only: powi_two_le_iff)
    ultimately show False using assms by linarith
  qed
  with binary_exponent_range(1) [of x] show ?thesis by simp
qed


subsection \<open>The nearest integer\<close>

lemma round_half_even_of_int [simp]: "round_half_even (of_int z) = z"
  by (simp add: round_half_even_def)

lemma round_half_even_bounds:
  "of_int (round_half_even y) \<le> y + 1 / 2" "y - 1 / 2 \<le> of_int (round_half_even y)"
  unfolding round_half_even_def by (auto; linarith)+

lemma round_half_even_error: "\<bar>of_int (round_half_even y) - y\<bar> \<le> 1 / 2"
  using round_half_even_bounds [of y] by linarith

lemma round_half_even_between:
  "\<lfloor>y\<rfloor> \<le> round_half_even y" "round_half_even y \<le> \<lfloor>y\<rfloor> + 1"
  unfolding round_half_even_def by auto

lemma round_half_even_mono:
  assumes "a \<le> b"
  shows "round_half_even a \<le> round_half_even b"
proof (cases "\<lfloor>a\<rfloor> = \<lfloor>b\<rfloor>")
  case True
  have "a - of_int \<lfloor>a\<rfloor> \<le> b - of_int \<lfloor>b\<rfloor>" using assms True by simp
  then show ?thesis unfolding round_half_even_def using True by auto
next
  case False
  then have "\<lfloor>a\<rfloor> < \<lfloor>b\<rfloor>" using assms floor_mono [of a b] by linarith
  then show ?thesis
    using round_half_even_between(2) [of a] round_half_even_between(1) [of b] by linarith
qed

lemma round_half_even_ge_int: "of_int z \<le> y \<Longrightarrow> z \<le> round_half_even y"
  using round_half_even_mono [of "of_int z" y] by simp

lemma round_half_even_le_int: "y \<le> of_int z \<Longrightarrow> round_half_even y \<le> z"
  using round_half_even_mono [of y "of_int z"] by simp

lemma round_half_even_down:
  assumes "0 \<le> d" "d < 1 / 2"
  shows "round_half_even (of_int z + d) = z"
proof -
  have "\<lfloor>of_int z + d\<rfloor> = z" using assms by linarith
  then show ?thesis using assms by (simp add: round_half_even_def)
qed

lemma round_half_even_up:
  assumes "1 / 2 < d" "d < 1"
  shows "round_half_even (of_int z + d) = z + 1"
proof -
  have "\<lfloor>of_int z + d\<rfloor> = z" using assms by linarith
  then show ?thesis using assms by (simp add: round_half_even_def)
qed

lemma round_half_even_minus: "round_half_even (- y) = - round_half_even y"
proof (cases "y = of_int \<lfloor>y\<rfloor>")
  case True
  then have "- y = of_int (- \<lfloor>y\<rfloor>)" by simp
  then have "round_half_even (- y) = - \<lfloor>y\<rfloor>" by (simp only: round_half_even_of_int)
  moreover have "round_half_even y = \<lfloor>y\<rfloor>" using True round_half_even_of_int by metis
  ultimately show ?thesis by simp
next
  case False
  then have frac: "of_int \<lfloor>y\<rfloor> < y" using of_int_floor_le [of y] by linarith
  have fl: "\<lfloor>- y\<rfloor> = - \<lfloor>y\<rfloor> - 1" using frac by linarith
  show ?thesis unfolding round_half_even_def fl by (auto; linarith?)
qed


subsection \<open>The nearest double\<close>

lemma powi_two_pos [simp]: "0 < (2::real) powi e"
  by (rule zero_less_power_int) simp

lemma powi_two_split: "(2::real) powi (a + b) = 2 powi a * 2 powi b"
  by (rule power_int_add) simp

lemma powi_two_of_int:
  assumes "0 \<le> n"
  shows "(2::real) powi n = of_int (2 ^ nat n)"
proof -
  have "(2::real) powi n = 2 powi (int (nat n))" using assms by simp
  also have "\<dots> = 2 ^ nat n" by (rule power_int_of_nat)
  finally show ?thesis by simp
qed

lemma round_real_at:
  assumes "- 1022 \<le> e" "e \<le> 1023" "2 powi e \<le> \<bar>x\<bar>" "\<bar>x\<bar> < 2 powi (e + 1)"
  shows "round_real x = of_int (round_half_even (x / 2 powi (e - 52))) * 2 powi (e - 52)"
  unfolding round_real_def binary_exponent_eq [OF assms] ..

lemma round_real_subnormal:
  assumes "\<bar>x\<bar> < 2 powi (- 1022)"
  shows "round_real x = of_int (round_half_even (x / 2 powi (- 1074))) * 2 powi (- 1074)"
  unfolding round_real_def binary_exponent_subnormal [OF assms] by simp

lemma quantum_le:
  assumes "x = of_int m * 2 powi e" "\<bar>m\<bar> < 2 ^ 53" "- 1074 \<le> e"
  shows "binary_exponent x - 52 \<le> e"
proof (cases "2 powi (- 1022) \<le> \<bar>x\<bar>")
  case True
  have "2 powi binary_exponent x \<le> \<bar>x\<bar>" by (rule binary_exponent_lower [OF True])
  also have "\<bar>x\<bar> = of_int \<bar>m\<bar> * 2 powi e"
    unfolding assms(1) by (simp add: abs_mult)
  also have "\<dots> < of_int (2 ^ 53) * 2 powi e"
    using assms(2) by (intro mult_strict_right_mono) (simp_all del: of_int_power of_int_numeral)
  also have "\<dots> = 2 powi (53 + e)"
    unfolding powi_two_split by (simp add: powi_two_of_int)
  finally have "binary_exponent x < 53 + e" by (simp only: powi_two_less_iff)
  then show ?thesis by simp
next
  case False
  then have "binary_exponent x = - 1022" by (intro binary_exponent_subnormal) simp
  then show ?thesis using assms(3) by simp
qed

lemma round_real_exact:
  assumes "x = of_int m * 2 powi e" "\<bar>m\<bar> < 2 ^ 53" "- 1074 \<le> e"
  shows "round_real x = x"
proof -
  define q where "q = binary_exponent x - 52"
  have qe: "q \<le> e" unfolding q_def by (rule quantum_le [OF assms])
  have split: "(2::real) powi e = 2 powi (e - q) * 2 powi q"
    using powi_two_split [of "e - q" q] by simp
  have "x / 2 powi q = of_int m * 2 powi (e - q)"
    unfolding assms(1) split by simp
  also have "\<dots> = of_int (m * 2 ^ nat (e - q))"
    using qe by (simp add: powi_two_of_int)
  finally have "round_half_even (x / 2 powi q) = m * 2 ^ nat (e - q)"
    by (simp only: round_half_even_of_int)
  then have "round_real x = of_int (m * 2 ^ nat (e - q)) * 2 powi q"
    unfolding round_real_def q_def by simp
  also have "\<dots> = of_int m * (2 powi (e - q) * 2 powi q)"
    using qe by (simp add: powi_two_of_int)
  also have "\<dots> = x" unfolding assms(1) split ..
  finally show ?thesis .
qed

lemma round_real_error:
  "\<bar>round_real x - x\<bar> \<le> 2 powi (binary_exponent x - 52) / 2"
proof -
  define q where "q = binary_exponent x - 52"
  have "\<bar>round_real x - x\<bar> = \<bar>of_int (round_half_even (x / 2 powi q)) - x / 2 powi q\<bar> * 2 powi q"
  proof -
    have "round_real x - x = (of_int (round_half_even (x / 2 powi q)) - x / 2 powi q) * 2 powi q"
      unfolding round_real_def q_def by (simp add: algebra_simps)
    then show ?thesis by (simp add: abs_mult)
  qed
  also have "\<dots> \<le> 1 / 2 * 2 powi q"
    by (intro mult_right_mono round_half_even_error) simp
  finally show ?thesis unfolding q_def by simp
qed

lemma powi_two_minus_53: "(2::real) powi (- 53) = 1 / 2 ^ 53"
proof -
  have "(2::real) powi (- 53) = inverse (2 powi 53)" by (rule power_int_minus)
  also have "(2::real) powi 53 = 2 ^ 53" using power_int_of_nat [of "2::real" 53] by simp
  finally show ?thesis by (simp only: inverse_eq_divide)
qed

lemma round_real_relative:
  assumes "2 powi (- 1022) \<le> \<bar>x\<bar>"
  shows "\<bar>round_real x - x\<bar> \<le> \<bar>x\<bar> / 2 ^ 53"
proof -
  have "(2::real) powi (binary_exponent x - 52) / 2 = 2 powi binary_exponent x * 2 powi (- 53)"
    using powi_two_split [of "binary_exponent x" "- 53"] powi_two_split [of "binary_exponent x - 53" 1]
    by simp
  also have "\<dots> \<le> \<bar>x\<bar> * 2 powi (- 53)"
    by (intro mult_right_mono binary_exponent_lower [OF assms]) simp
  also have "\<dots> = \<bar>x\<bar> / 2 ^ 53" unfolding powi_two_minus_53 by simp
  finally show ?thesis using round_real_error [of x] by linarith
qed

lemma scan_exponent_found:
  "- 1022 < scan_exponent n x \<Longrightarrow> 2 powi (scan_exponent n x) \<le> \<bar>x\<bar>"
  by (induction n) auto

lemma scan_exponent_below:
  "scan_exponent n x < int n - 1022 \<Longrightarrow> \<bar>x\<bar> < 2 powi (scan_exponent n x + 1)"
proof (induction n)
  case 0
  then show ?case by simp
next
  case (Suc n)
  show ?case
  proof (cases "2 powi (int n - 1021) \<le> \<bar>x\<bar>")
    case True
    then show ?thesis using Suc.prems by simp
  next
    case False
    then have "\<bar>x\<bar> < 2 powi (scan_exponent n x + 1)"
      using scan_exponent_upper [of x n] by simp
    then show ?thesis using False by simp
  qed
qed

lemma scan_exponent_minus: "scan_exponent n (- x) = scan_exponent n x"
  by (induction n) simp_all

lemma binary_exponent_minus: "binary_exponent (- x) = binary_exponent x"
  by (simp add: binary_exponent_def scan_exponent_minus)

lemma binary_exponent_found:
  "- 1022 < binary_exponent x \<Longrightarrow> 2 powi binary_exponent x \<le> \<bar>x\<bar>"
  unfolding binary_exponent_def by (rule scan_exponent_found)

lemma binary_exponent_below:
  "binary_exponent x < 1023 \<Longrightarrow> \<bar>x\<bar> < 2 powi (binary_exponent x + 1)"
  unfolding binary_exponent_def using scan_exponent_below [of 2045 x] by simp

lemma round_real_minus: "round_real (- x) = - round_real x"
  by (simp add: round_real_def binary_exponent_minus round_half_even_minus)

lemma round_real_zero [simp]: "round_real 0 = 0"
  using round_real_minus [of 0] by simp

lemma round_real_nonneg:
  assumes "0 \<le> x"
  shows "0 \<le> round_real x"
proof -
  have "of_int 0 \<le> x / 2 powi (binary_exponent x - 52)" using assms by simp
  then have "0 \<le> round_half_even (x / 2 powi (binary_exponent x - 52))"
    by (rule round_half_even_ge_int)
  then show ?thesis by (simp add: round_real_def)
qed

lemma powi_two_52: "(2::real) powi e = of_int (2 ^ 52) * 2 powi (e - 52)"
  using powi_two_split [of 52 "e - 52"] by (simp add: powi_two_of_int)

lemma powi_two_53: "(2::real) powi (e + 1) = of_int (2 ^ 53) * 2 powi (e - 52)"
  using powi_two_split [of 53 "e - 52"] by (simp add: powi_two_of_int add.commute)

lemma round_real_ge_binade:
  assumes "2 powi binary_exponent x \<le> x"
  shows "2 powi binary_exponent x \<le> round_real x"
proof -
  define q where "q = binary_exponent x - 52"
  have "of_int (2 ^ 52) * 2 powi q \<le> x"
    using assms powi_two_52 [of "binary_exponent x"] by (simp only: q_def)
  then have "of_int (2 ^ 52) \<le> x / 2 powi q" by (simp add: pos_le_divide_eq del: of_int_power)
  then have "2 ^ 52 \<le> round_half_even (x / 2 powi q)" by (rule round_half_even_ge_int)
  then have "of_int (2 ^ 52) \<le> (of_int (round_half_even (x / 2 powi q)) :: real)"
    by (simp only: of_int_le_iff)
  then have "of_int (2 ^ 52) * 2 powi q \<le> real_of_int (round_half_even (x / 2 powi q)) * 2 powi q"
    by (intro mult_right_mono) simp_all
  then show ?thesis
    unfolding round_real_def q_def [symmetric] powi_two_52 [of "binary_exponent x"] q_def [symmetric] .
qed

lemma round_real_le_binade:
  assumes "x \<le> 2 powi (binary_exponent x + 1)"
  shows "round_real x \<le> 2 powi (binary_exponent x + 1)"
proof -
  define q where "q = binary_exponent x - 52"
  have "x \<le> of_int (2 ^ 53) * 2 powi q"
    using assms powi_two_53 [of "binary_exponent x"] by (simp only: q_def)
  then have "x / 2 powi q \<le> of_int (2 ^ 53)" by (simp add: pos_divide_le_eq del: of_int_power)
  then have "round_half_even (x / 2 powi q) \<le> 2 ^ 53" by (rule round_half_even_le_int)
  then have "(of_int (round_half_even (x / 2 powi q)) :: real) \<le> of_int (2 ^ 53)"
    by (simp only: of_int_le_iff)
  then have "real_of_int (round_half_even (x / 2 powi q)) * 2 powi q \<le> of_int (2 ^ 53) * 2 powi q"
    by (intro mult_right_mono) simp_all
  then show ?thesis
    unfolding round_real_def q_def [symmetric] powi_two_53 [of "binary_exponent x"] q_def [symmetric] .
qed

lemma round_real_mono_nonneg:
  assumes "0 \<le> x" "x \<le> y"
  shows "round_real x \<le> round_real y"
proof -
  consider "binary_exponent x = binary_exponent y" | "binary_exponent x < binary_exponent y"
    | "binary_exponent y < binary_exponent x" by linarith
  then show ?thesis
  proof cases
    case 1
    have "x / 2 powi (binary_exponent y - 52) \<le> y / 2 powi (binary_exponent y - 52)"
      using assms(2) by (intro divide_right_mono) simp_all
    then have "round_half_even (x / 2 powi (binary_exponent y - 52))
        \<le> round_half_even (y / 2 powi (binary_exponent y - 52))"
      by (rule round_half_even_mono)
    then show ?thesis unfolding round_real_def 1
      by (intro mult_right_mono) simp_all
  next
    case 2
    have "binary_exponent x < 1023" using 2 binary_exponent_range(2) [of y] by linarith
    then have "x \<le> 2 powi (binary_exponent x + 1)"
      using binary_exponent_below [of x] by linarith
    then have "round_real x \<le> 2 powi (binary_exponent x + 1)" by (rule round_real_le_binade)
    also have "\<dots> \<le> 2 powi binary_exponent y" using 2 by (simp only: powi_two_le_iff)
    also have "\<dots> \<le> round_real y"
    proof (rule round_real_ge_binade)
      have "- 1022 < binary_exponent y" using 2 binary_exponent_range(1) [of x] by linarith
      then show "2 powi binary_exponent y \<le> y"
        using binary_exponent_found [of y] assms by simp
    qed
    finally show ?thesis .
  next
    case 3
    have "- 1022 < binary_exponent x" using 3 binary_exponent_range(1) [of y] by linarith
    then have "2 powi binary_exponent x \<le> x" using binary_exponent_found [of x] assms by simp
    moreover have "binary_exponent y < 1023" using 3 binary_exponent_range(2) [of x] by linarith
    then have "y < 2 powi (binary_exponent y + 1)"
      using binary_exponent_below [of y] by linarith
    moreover have "(2::real) powi (binary_exponent y + 1) \<le> 2 powi binary_exponent x"
      using 3 by (simp only: powi_two_le_iff)
    ultimately show ?thesis using assms by linarith
  qed
qed

lemma round_real_mono:
  assumes "x \<le> y"
  shows "round_real x \<le> round_real y"
proof -
  consider "0 \<le> x" | "x < 0" "0 \<le> y" | "y < 0" using assms by linarith
  then show ?thesis
  proof cases
    case 1
    then show ?thesis using assms by (rule round_real_mono_nonneg)
  next
    case 2
    have "0 \<le> round_real (- x)" using 2 by (intro round_real_nonneg) simp
    then have "round_real x \<le> 0" by (simp add: round_real_minus)
    also have "0 \<le> round_real y" using 2 by (intro round_real_nonneg)
    finally show ?thesis .
  next
    case 3
    have "round_real (- y) \<le> round_real (- x)"
      using 3 assms by (intro round_real_mono_nonneg) simp_all
    then show ?thesis by (simp add: round_real_minus)
  qed
qed


lemma round_real_repr:
  assumes "\<bar>x\<bar> < 2 powi 1024"
  shows "\<exists>m e. round_real x = of_int m * 2 powi e \<and> \<bar>m\<bar> < 2 ^ 53 \<and> - 1074 \<le> e"
proof -
  define q where "q = binary_exponent x - 52"
  define n where "n = round_half_even (x / 2 powi q)"
  have r: "round_real x = of_int n * 2 powi q" unfolding round_real_def n_def q_def ..
  have q: "- 1074 \<le> q" using binary_exponent_range(1) [of x] unfolding q_def by linarith
  have "\<bar>x\<bar> < of_int (2 ^ 53) * 2 powi q"
    using binary_exponent_upper [OF assms] powi_two_53 [of "binary_exponent x"]
    by (simp only: q_def)
  then have "x < of_int (2 ^ 53) * 2 powi q" "of_int (- (2 ^ 53)) * 2 powi q < x"
    by (simp_all only: of_int_minus mult_minus_left)
  then have "x / 2 powi q < of_int (2 ^ 53)" "of_int (- (2 ^ 53)) < x / 2 powi q"
    by (simp_all only: pos_divide_less_eq pos_less_divide_eq powi_two_pos)
  then have "x / 2 powi q \<le> of_int (2 ^ 53)" "of_int (- (2 ^ 53)) \<le> x / 2 powi q"
    by linarith+
  then have "n \<le> 2 ^ 53" "- (2 ^ 53) \<le> n"
    unfolding n_def by (simp_all only: round_half_even_le_int round_half_even_ge_int)
  then consider "\<bar>n\<bar> < 2 ^ 53" | "n = 2 ^ 53" | "n = - (2 ^ 53)" by linarith
  then show ?thesis
  proof cases
    case 1
    with r q show ?thesis by blast
  next
    case 2
    have "round_real x = of_int (2 ^ 52) * 2 powi (q + 1)"
      unfolding r 2 powi_two_split [of q 1] by simp
    moreover have "\<bar>2 ^ 52 :: int\<bar> < 2 ^ 53" by simp
    moreover have "- 1074 \<le> q + 1" using q by linarith
    ultimately show ?thesis by blast
  next
    case 3
    have "round_real x = of_int (- (2 ^ 52)) * 2 powi (q + 1)"
      unfolding r 3 powi_two_split [of q 1] by simp
    moreover have "\<bar>- (2 ^ 52) :: int\<bar> < 2 ^ 53" by simp
    moreover have "- 1074 \<le> q + 1" using q by linarith
    ultimately show ?thesis by blast
  qed
qed

lemma round_real_idem:
  assumes "\<bar>x\<bar> < 2 powi 1024"
  shows "round_real (round_real x) = round_real x"
proof -
  from round_real_repr [OF assms] obtain m e where
    "round_real x = of_int m * 2 powi e" "\<bar>m\<bar> < 2 ^ 53" "- 1074 \<le> e" by blast
  then show ?thesis by (rule round_real_exact)
qed

lemma round_real_powi: "- 1074 \<le> e \<Longrightarrow> round_real (2 powi e) = 2 powi e"
  using round_real_exact [of "2 powi e" 1 e] by simp

lemma round_real_overflow:
  assumes "2 powi 1024 \<le> \<bar>x\<bar>"
  shows "2 powi 1024 \<le> \<bar>round_real x\<bar>"
proof -
  have top: "round_real (2 powi 1024) = 2 powi 1024" by (rule round_real_powi) simp
  show ?thesis
  proof (cases "0 \<le> x")
    case True
    then have "2 powi 1024 \<le> x" using assms by linarith
    then have "round_real (2 powi 1024) \<le> round_real x" by (rule round_real_mono)
    then show ?thesis unfolding top by linarith
  next
    case False
    then have "2 powi 1024 \<le> - x" using assms by linarith
    then have "round_real (2 powi 1024) \<le> round_real (- x)" by (rule round_real_mono)
    then show ?thesis unfolding top round_real_minus by linarith
  qed
qed

lemma round_real_bounded:
  assumes "\<bar>x\<bar> \<le> 2 powi e" "- 1074 \<le> e"
  shows "\<bar>round_real x\<bar> \<le> 2 powi e"
proof -
  have "x \<le> 2 powi e" "- (2 powi e) \<le> x" using assms(1) by linarith+
  then have "round_real x \<le> round_real (2 powi e)" "round_real (- (2 powi e)) \<le> round_real x"
    by (simp_all only: round_real_mono)
  then show ?thesis
    unfolding round_real_minus round_real_powi [OF assms(2)] by linarith
qed

subsection \<open>Doubles\<close>

lemma round_double_Num:
  "\<bar>round_real x\<bar> < 2 powi 1024 \<Longrightarrow> round_double x = Num (round_real x)"
  by (simp add: round_double_def)

lemma round_double_cases:
  obtains "round_double x = Num (round_real x)" "\<bar>round_real x\<bar> < 2 powi 1024"
  | "round_double x = PosInfinity" "2 powi 1024 \<le> round_real x"
  | "round_double x = NegInfinity" "round_real x \<le> - (2 powi 1024)"
proof (cases "2 powi 1024 \<le> \<bar>round_real x\<bar>")
  case False
  then show ?thesis using that(1) by (simp add: round_double_def)
next
  case True
  have pos: "(0::real) < 2 powi 1024" by (rule powi_two_pos)
  show ?thesis
  proof (cases "0 < round_real x")
    case True
    with \<open>2 powi 1024 \<le> \<bar>round_real x\<bar>\<close> show ?thesis
      using that(2) by (simp add: round_double_def)
  next
    case False
    with \<open>2 powi 1024 \<le> \<bar>round_real x\<bar>\<close> have "round_real x \<le> - (2 powi 1024)" by linarith
    with False \<open>2 powi 1024 \<le> \<bar>round_real x\<bar>\<close> show ?thesis
      using that(3) by (simp add: round_double_def)
  qed
qed

lemma round_double_bounded:
  assumes "\<bar>x\<bar> \<le> 2 powi e" "- 1074 \<le> e" "e \<le> 1023"
  shows "round_double x = Num (round_real x)"
proof (rule round_double_Num)
  have "\<bar>round_real x\<bar> \<le> 2 powi e" using assms(1,2) by (rule round_real_bounded)
  also have "(2::real) powi e < 2 powi 1024" using assms(3) by (simp only: powi_two_less_iff)
  finally show "\<bar>round_real x\<bar> < 2 powi 1024" .
qed

lemma round_double_exact:
  assumes "\<bar>m\<bar> < 2 ^ 53" "- 1074 \<le> e" "e \<le> 970"
  shows "round_double (of_int m * 2 powi e) = Num (of_int m * 2 powi e)"
proof -
  let ?x = "of_int m * (2::real) powi e"
  have exact: "round_real ?x = ?x" using refl assms(1,2) by (rule round_real_exact)
  have "\<bar>?x\<bar> = of_int \<bar>m\<bar> * 2 powi e" by (simp add: abs_mult)
  also have "\<dots> \<le> of_int (2 ^ 53) * 2 powi e"
    using assms(1) by (intro mult_right_mono) (simp_all del: of_int_power of_int_numeral)
  also have "\<dots> = 2 powi (53 + e)" unfolding powi_two_split by (simp add: powi_two_of_int)
  finally have "\<bar>?x\<bar> \<le> 2 powi (53 + e)" .
  then have "round_double ?x = Num (round_real ?x)"
    using assms(2,3) by (intro round_double_bounded [of _ "53 + e"]) simp_all
  then show ?thesis unfolding exact .
qed

lemma round_double_Num_iff:
  "round_double x = Num r \<longleftrightarrow> round_real x = r \<and> \<bar>r\<bar> < 2 powi 1024"
  by (rule round_double_cases [of x]) auto

lemma is_double_iff: "is_double x \<longleftrightarrow> round_real x = x \<and> \<bar>x\<bar> < 2 powi 1024"
  unfolding is_double_def by (rule round_double_Num_iff)

lemma is_double_of_int: "\<bar>m\<bar> < 2 ^ 53 \<Longrightarrow> is_double (of_int m)"
  using round_double_exact [of m 0] by (simp add: is_double_def)

lemma is_double_halves: "\<bar>m\<bar> < 2 ^ 53 \<Longrightarrow> is_double (of_int m / 2)"
  using round_double_exact [of m "- 1"] by (simp add: is_double_def)

lemma round_double_zero [simp]: "round_double 0 = Num 0"
  using is_double_of_int [of 0] by (simp add: is_double_def)

lemma round_double_idem:
  assumes "round_double x = Num r"
  shows "is_double r"
proof -
  from assms have r: "round_real x = r" and fin: "\<bar>r\<bar> < 2 powi 1024"
    unfolding round_double_Num_iff by blast+
  have "\<bar>x\<bar> < 2 powi 1024"
  proof (rule ccontr)
    assume "\<not> \<bar>x\<bar> < 2 powi 1024"
    then have "2 powi 1024 \<le> \<bar>round_real x\<bar>" by (intro round_real_overflow) simp
    with r fin show False by simp
  qed
  then have "round_real r = r" using round_real_idem [of x] r by simp
  with fin show ?thesis by (simp add: is_double_iff)
qed

lemma round_double_mono:
  assumes "x \<le> y"
  shows "js_le (round_double x) (round_double y)"
proof -
  have le: "round_real x \<le> round_real y" using assms by (rule round_real_mono)
  have pos: "(0::real) < 2 powi 1024" by (rule powi_two_pos)
  show ?thesis
    by (rule round_double_cases [of x]; rule round_double_cases [of y])
       (use le pos in \<open>auto simp: js_le_def\<close>)
qed

lemma round_double_at:
  assumes "2 powi e \<le> \<bar>x\<bar>" "\<bar>x\<bar> < 2 powi (e + 1)" "- 1022 \<le> e" "e \<le> 1022"
  shows "round_double x = Num (of_int (round_half_even (x / 2 powi (e - 52))) * 2 powi (e - 52))"
proof -
  have "round_real x = of_int (round_half_even (x / 2 powi (e - 52))) * 2 powi (e - 52)"
    using assms by (intro round_real_at) simp_all
  moreover have "round_double x = Num (round_real x)"
    using assms by (intro round_double_bounded [of x "e + 1"]) simp_all
  ultimately show ?thesis by simp
qed

section \<open>Properties of the price grid\<close>

subsection \<open>A loop that never leaves\<close>

text \<open>
  When the price is within the range and adding the step leaves it as it is, the loop
  runs for ever.
\<close>

lemma price_loop_stuck:
  assumes "price_loop price0 maxPrice0 step0 prices0 = Some result0"
  shows "\<not> (js_le price0 maxPrice0 \<and> dbl_add price0 step0 = price0)"
proof (rule price_loop.raw_induct [OF _ assms])
  fix f price maxPrice step prices result
  assume IH: "\<And>p m s ps r. f p m s ps = Some r \<Longrightarrow> \<not> (js_le p m \<and> dbl_add p s = p)"
    and body: "(if js_le price maxPrice
                then f (dbl_add price step) maxPrice step
                       (prices @ [dbl_div (math_round (dbl_mul price (Num 100))) (Num 100)])
                else Some prices) = Some result"
  show "\<not> (js_le price maxPrice \<and> dbl_add price step = price)"
  proof
    assume stuck: "js_le price maxPrice \<and> dbl_add price step = price"
    with body have "f price maxPrice step
        (prices @ [dbl_div (math_round (dbl_mul price (Num 100))) (Num 100)]) = Some result"
      by simp
    from IH [OF this] stuck show False by simp
  qed
qed

lemma price_loop_never:
  assumes "js_le price maxPrice" "dbl_add price step = price"
  shows "price_loop price maxPrice step prices = None"
proof (cases "price_loop price maxPrice step prices")
  case None
  then show ?thesis .
next
  case (Some result)
  from price_loop_stuck [OF this] assms show ?thesis by simp
qed

text \<open>
  \<^verbatim>\<open>generatePriceRange(100, 1.0000000000000002)\<close>, the range factor being the double
  next above 1: the ends of the range are the two neighbours of 100 among the doubles,
  \<open>100 - 2 ^ -45\<close> and \<open>100 + 2 ^ -45\<close>, and the step is positive, about
  \<open>2.8 * 10 ^ -16\<close>, but less than half the distance of \<open>2 ^ -46\<close> between two doubles
  near 100: the sum of the price and the step rounds back to the price.
\<close>

lemma narrow_factor: "dbl_sub (Num 2) (Num (1 + 1 / 2 ^ 52)) = Num (1 - 1 / 2 ^ 52)"
  using round_double_exact [of 4503599627370495 "- 52"]
  by (simp add: dbl_sub_def)

lemma narrow_min: "dbl_mul (Num 100) (Num (1 - 1 / 2 ^ 52)) = Num (100 - 1 / 2 ^ 45)"
proof -
  have "round_half_even (7036874417766398 + 7 / 16) = 7036874417766398"
    using round_half_even_down [of "7 / 16" 7036874417766398] by simp
  then show ?thesis
    using round_double_at [of 6 "100 * (1 - 1 / 2 ^ 52)"] by (simp add: dbl_mul_def)
qed

lemma narrow_max: "dbl_mul (Num 100) (Num (1 + 1 / 2 ^ 52)) = Num (100 + 1 / 2 ^ 45)"
proof -
  have "round_half_even (7036874417766401 + 9 / 16) = 7036874417766402"
    using round_half_even_up [of "9 / 16" 7036874417766401] by simp
  then show ?thesis
    using round_double_at [of 6 "100 * (1 + 1 / 2 ^ 52)"] by (simp add: dbl_mul_def)
qed

lemma narrow_width: "dbl_sub (Num (100 + 1 / 2 ^ 45)) (Num (100 - 1 / 2 ^ 45)) = Num (1 / 2 ^ 44)"
  using round_double_exact [of 1 "- 44"] by (simp add: dbl_sub_def)

lemma narrow_step:
  "dbl_div (Num (1 / 2 ^ 44)) (Num 200) = Num (5764607523034235 / 2 ^ 104)"
proof -
  have "round_half_even (5764607523034234 + 22 / 25) = 5764607523034235"
    using round_half_even_up [of "22 / 25" 5764607523034234] by simp
  then show ?thesis
    using round_double_at [of "- 52" "1 / 2 ^ 44 / 200"] by (simp add: dbl_div_def)
qed

lemma narrow_sum:
  "dbl_add (Num (100 - 1 / 2 ^ 45)) (Num (5764607523034235 / 2 ^ 104)) = Num (100 - 1 / 2 ^ 45)"
proof -
  have "round_half_even (7036874417766398 + 5764607523034235 / 2 ^ 58) = 7036874417766398"
    using round_half_even_down [of "5764607523034235 / 2 ^ 58" 7036874417766398] by simp
  then show ?thesis
    using round_double_at [of 6 "100 - 1 / 2 ^ 45 + 5764607523034235 / 2 ^ 104"]
    by (simp add: dbl_add_def)
qed

lemma narrow_grid: "generatePriceRange 100 (1 + 1 / 2 ^ 52) = None"
proof -
  have "js_le (Num (100 - 1 / 2 ^ 45)) (Num (100 + 1 / 2 ^ 45))" by simp
  then have "price_loop (Num (100 - 1 / 2 ^ 45)) (Num (100 + 1 / 2 ^ 45))
      (Num (5764607523034235 / 2 ^ 104)) [] = None"
    using narrow_sum by (rule price_loop_never)
  then show ?thesis
    unfolding generatePriceRange_def narrow_factor narrow_min narrow_max narrow_width narrow_step
      Let_def .
qed

subsection \<open>Grids with a binary step\<close>

text \<open>
  Where every sum of the loop is a double, the loop pushes the prices
  \<open>p 0, ..., p (n - 1)\<close>, each rounded to cents, and leaves at \<open>p n\<close>.
\<close>

lemma price_loop_exact:
  assumes inside: "\<And>j. j < n \<Longrightarrow> p j \<le> maxPrice"
    and outside: "\<not> p n \<le> maxPrice"
    and sums: "\<And>j. j < n \<Longrightarrow> dbl_add (Num (p j)) (Num step) = Num (p (Suc j))"
  shows "i \<le> n \<Longrightarrow> n - i = d \<Longrightarrow>
     price_loop (Num (p i)) (Num maxPrice) (Num step) prices =
       Some (prices @ map (\<lambda>j. cents (Num (p j))) [i..<n])"
proof (induction d arbitrary: i prices)
  case 0
  then have "i = n" by simp
  then show ?case using outside by (subst price_loop.simps) simp
next
  case (Suc d)
  then have lt: "i < n" and rest: "Suc i \<le> n" "n - Suc i = d" by simp_all
  have "price_loop (Num (p (Suc i))) (Num maxPrice) (Num step) (prices @ [cents (Num (p i))]) =
      Some ((prices @ [cents (Num (p i))]) @ map (\<lambda>j. cents (Num (p j))) [Suc i..<n])"
    using rest by (rule Suc.IH)
  moreover have "[i..<n] = i # [Suc i..<n]" using lt by (rule upt_conv_Cons)
  ultimately show ?case
    using inside [OF lt] sums [OF lt] by (subst price_loop.simps) (simp add: cents_def)
qed

lemma js_round_of_int: "js_round (of_int z) = of_int z"
  by (simp add: js_round_def)

lemma dbl_add_halves:
  assumes "\<bar>m + n\<bar> < 2 ^ 53"
  shows "dbl_add (Num (of_int m / 2)) (Num (of_int n / 2)) = Num (of_int (m + n) / 2)"
proof -
  have sum: "of_int m / 2 + of_int n / 2 = (of_int (m + n) / 2 :: real)"
    by (simp add: add_divide_distrib)
  show ?thesis
    using is_double_halves [OF assms] unfolding dbl_add_def is_double_def js_add.simps rounded.simps sum .
qed

lemma cents_halves:
  assumes "\<bar>m\<bar> < 2 ^ 40"
  shows "cents (Num (of_int m / 2)) = Num (of_int m / 2)"
proof -
  have "\<bar>50 * m\<bar> < 2 ^ 53" "\<bar>m\<bar> < 2 ^ 53" using assms by simp_all
  then have a: "round_double (of_int (50 * m)) = Num (of_int (50 * m))"
    and b: "round_double (of_int m / 2) = Num (of_int m / 2)"
    using is_double_of_int is_double_halves unfolding is_double_def by blast+
  have "dbl_mul (Num (of_int m / 2)) (Num 100) = Num (of_int (50 * m))"
    using a by (simp add: dbl_mul_def)
  moreover have "dbl_div (Num (of_int (50 * m))) (Num 100) = Num (of_int m / 2)"
    using b by (simp add: dbl_div_def)
  ultimately show ?thesis
    unfolding cents_def by (simp only: math_round.simps js_round_of_int)
qed

text \<open>The default grid and the wide grid of a current price of 100: steps 1/2 and 1.\<close>

lemma grid_100:
  "generatePriceRange 100 (3 / 2) = Some (map (\<lambda>k. Num (50 + real k / 2)) [0..<201])"
proof -
  define p :: "nat \<Rightarrow> real" where "p j = of_int (100 + int j) / 2" for j
  have factor: "dbl_sub (Num 2) (Num (3 / 2)) = Num (1 / 2)"
    using is_double_halves [of 1] by (simp add: dbl_sub_def is_double_def)
  have lo: "dbl_mul (Num 100) (Num (1 / 2)) = Num 50"
    using is_double_of_int [of 50] by (simp add: dbl_mul_def is_double_def)
  have hi: "dbl_mul (Num 100) (Num (3 / 2)) = Num 150"
    using is_double_of_int [of 150] by (simp add: dbl_mul_def is_double_def)
  have width: "dbl_sub (Num 150) (Num 50) = Num 100"
    using is_double_of_int [of 100] by (simp add: dbl_sub_def is_double_def)
  have step: "dbl_div (Num 100) (Num 200) = Num (1 / 2)"
    using is_double_halves [of 1] by (simp add: dbl_div_def is_double_def)
  have "price_loop (Num (p 0)) (Num 150) (Num (of_int 1 / 2)) [] =
      Some ([] @ map (\<lambda>j. cents (Num (p j))) [0..<201])"
  proof (rule price_loop_exact [where n = 201 and d = 201])
    fix j :: nat
    assume "j < 201"
    then show "p j \<le> 150" by (simp add: p_def)
    have "dbl_add (Num (of_int (100 + int j) / 2)) (Num (of_int 1 / 2)) =
        Num (of_int (100 + int j + 1) / 2)"
      using \<open>j < 201\<close> by (intro dbl_add_halves) simp
    then show "dbl_add (Num (p j)) (Num (of_int 1 / 2)) = Num (p (Suc j))"
      by (simp add: p_def add.commute add.left_commute)
  qed (simp_all add: p_def)
  moreover have "cents (Num (p j)) = Num (50 + real j / 2)" if "j < 201" for j
  proof -
    have "cents (Num (of_int (100 + int j) / 2)) = Num (of_int (100 + int j) / 2)"
      using that by (intro cents_halves) simp
    then show ?thesis by (simp add: p_def add_divide_distrib)
  qed
  then have "map (\<lambda>j. cents (Num (p j))) [0..<201] = map (\<lambda>k. Num (50 + real k / 2)) [0..<201]"
    by (intro map_cong) simp_all
  moreover have "p 0 = 50" by (simp add: p_def)
  ultimately show ?thesis
    unfolding generatePriceRange_def Let_def factor lo hi width step by simp
qed

lemma grid_wide_100: "generatePriceRange 100 2 = Some (map (\<lambda>k. Num (real k)) [0..<201])"
proof -
  define p :: "nat \<Rightarrow> real" where "p j = of_int (2 * int j) / 2" for j
  have factor: "dbl_sub (Num 2) (Num 2) = Num 0" by (simp add: dbl_sub_def)
  have lo: "dbl_mul (Num 100) (Num 0) = Num 0" by (simp add: dbl_mul_def)
  have hi: "dbl_mul (Num 100) (Num 2) = Num 200"
    using is_double_of_int [of 200] by (simp add: dbl_mul_def is_double_def)
  have width: "dbl_sub (Num 200) (Num 0) = Num 200"
    using is_double_of_int [of 200] by (simp add: dbl_sub_def is_double_def)
  have step: "dbl_div (Num 200) (Num 200) = Num 1"
    using is_double_of_int [of 1] by (simp add: dbl_div_def is_double_def)
  have "price_loop (Num (p 0)) (Num 200) (Num (of_int 2 / 2)) [] =
      Some ([] @ map (\<lambda>j. cents (Num (p j))) [0..<201])"
  proof (rule price_loop_exact [where n = 201 and d = 201])
    fix j :: nat
    assume "j < 201"
    then show "p j \<le> 200" by (simp add: p_def)
    have "dbl_add (Num (of_int (2 * int j) / 2)) (Num (of_int 2 / 2)) =
        Num (of_int (2 * int j + 2) / 2)"
      using \<open>j < 201\<close> by (intro dbl_add_halves) simp
    then show "dbl_add (Num (p j)) (Num (of_int 2 / 2)) = Num (p (Suc j))"
      by (simp add: p_def add.commute add.left_commute)
  qed (simp_all add: p_def)
  moreover have "cents (Num (p j)) = Num (real j)" if "j < 201" for j
  proof -
    have "cents (Num (of_int (2 * int j) / 2)) = Num (of_int (2 * int j) / 2)"
      using that by (intro cents_halves) simp
    then show ?thesis by (simp add: p_def)
  qed
  then have "map (\<lambda>j. cents (Num (p j))) [0..<201] = map (\<lambda>k. Num (real k)) [0..<201]"
    by (intro map_cong) simp_all
  moreover have "p 0 = 0" by (simp add: p_def)
  ultimately show ?thesis
    unfolding generatePriceRange_def Let_def factor lo hi width step by simp
qed

text \<open>
  The default grid of a current price of 0.78125: the step is 1/256, less than half a
  cent, and neighbours round to the same cent.
\<close>

lemma is_double_dyadic:
  assumes "\<bar>m\<bar> < 2 ^ 53" "k \<le> 1074"
  shows "is_double (of_int m / 2 ^ k)"
proof -
  have "(2::real) powi (- int k) = 1 / 2 ^ k"
    by (simp add: power_int_minus_divide)
  then have "of_int m * (2::real) powi (- int k) = of_int m / 2 ^ k" by simp
  then show ?thesis
    using round_double_exact [of m "- int k"] assms by (simp add: is_double_def)
qed

lemma grid_small:
  "generatePriceRange (25 / 32) (3 / 2) =
     Some (map (\<lambda>k. cents (Num ((100 + real k) / 256))) [0..<201])"
proof -
  define p :: "nat \<Rightarrow> real" where "p j = of_int (100 + int j) / 2 ^ 8" for j
  have factor: "dbl_sub (Num 2) (Num (3 / 2)) = Num (1 / 2)"
    using is_double_halves [of 1] by (simp add: dbl_sub_def is_double_def)
  have lo: "dbl_mul (Num (25 / 32)) (Num (1 / 2)) = Num (25 / 64)"
    using is_double_dyadic [of 25 6] by (simp add: dbl_mul_def is_double_def)
  have hi: "dbl_mul (Num (25 / 32)) (Num (3 / 2)) = Num (75 / 64)"
    using is_double_dyadic [of 75 6] by (simp add: dbl_mul_def is_double_def)
  have width: "dbl_sub (Num (75 / 64)) (Num (25 / 64)) = Num (25 / 32)"
    using is_double_dyadic [of 25 5] by (simp add: dbl_sub_def is_double_def)
  have step: "dbl_div (Num (25 / 32)) (Num 200) = Num (1 / 256)"
    using is_double_dyadic [of 1 8] by (simp add: dbl_div_def is_double_def)
  have "price_loop (Num (p 0)) (Num (75 / 64)) (Num (1 / 256)) [] =
      Some ([] @ map (\<lambda>j. cents (Num (p j))) [0..<201])"
  proof (rule price_loop_exact [where n = 201 and d = 201])
    fix j :: nat
    assume "j < 201"
    then show "p j \<le> 75 / 64" by (simp add: p_def)
    have "is_double (of_int (100 + int j + 1) / 2 ^ 8)"
      using \<open>j < 201\<close> by (intro is_double_dyadic) simp_all
    then have exact: "round_double (of_int (100 + int j + 1) / 2 ^ 8) =
        Num (of_int (100 + int j + 1) / 2 ^ 8)"
      by (simp only: is_double_def)
    have sum: "p j + 1 / 256 = of_int (100 + int j + 1) / 2 ^ 8"
      by (simp add: p_def add_divide_distrib)
    have succ: "p (Suc j) = of_int (100 + int j + 1) / 2 ^ 8"
      by (simp add: p_def add.commute add.left_commute)
    show "dbl_add (Num (p j)) (Num (1 / 256)) = Num (p (Suc j))"
      unfolding dbl_add_def js_add.simps rounded.simps sum succ by (rule exact)
  qed (simp_all add: p_def)
  moreover have "p j = (100 + real j) / 256" for j by (simp add: p_def)
  moreover have "p 0 = 25 / 64" by (simp add: p_def)
  ultimately show ?thesis
    unfolding generatePriceRange_def Let_def factor lo hi width step by simp
qed

lemma grid_small_first: "cents (Num (25 / 64)) = round_double (39 / 100)"
proof -
  have "dbl_mul (Num (25 / 64)) (Num 100) = Num (625 / 16)"
    using is_double_dyadic [of 625 4] by (simp add: dbl_mul_def is_double_def)
  moreover have "js_round (625 / 16) = 39" by (simp add: js_round_def)
  ultimately show ?thesis by (simp add: cents_def dbl_div_def)
qed

lemma grid_small_second: "cents (Num (101 / 256)) = round_double (39 / 100)"
proof -
  have "dbl_mul (Num (101 / 256)) (Num 100) = Num (2525 / 64)"
    using is_double_dyadic [of 2525 6] by (simp add: dbl_mul_def is_double_def)
  moreover have "js_round (2525 / 64) = 39" by (simp add: js_round_def)
  ultimately show ?thesis by (simp add: cents_def dbl_div_def)
qed

subsection \<open>A range factor of 1\<close>

lemma generatePriceRange_factor_one:
  assumes "is_double currentPrice"
  shows "generatePriceRange currentPrice 1 = None"
proof -
  have c: "round_double currentPrice = Num currentPrice" using assms by (simp add: is_double_def)
  have factor: "dbl_sub (Num 2) (Num 1) = Num 1"
    using is_double_of_int [of 1] by (simp add: dbl_sub_def is_double_def)
  have ends: "dbl_mul (Num currentPrice) (Num 1) = Num currentPrice"
    using c by (simp add: dbl_mul_def)
  have width: "dbl_sub (Num currentPrice) (Num currentPrice) = Num 0"
    by (simp add: dbl_sub_def)
  have step: "dbl_div (Num 0) (Num 200) = Num 0" by (simp add: dbl_div_def)
  have "js_le (Num currentPrice) (Num currentPrice)" by simp
  moreover have "dbl_add (Num currentPrice) (Num 0) = Num currentPrice"
    using c by (simp add: dbl_add_def)
  ultimately have "price_loop (Num currentPrice) (Num currentPrice) (Num 0) [] = None"
    by (rule price_loop_never)
  then show ?thesis
    unfolding generatePriceRange_def Let_def factor ends width step .
qed

subsection \<open>The order of a returned grid\<close>

lemma round_double_not_NaN [simp]: "round_double x \<noteq> NaN"
  by (simp add: round_double_def)

lemma js_le_NaN [simp]: "\<not> js_le NaN y" "\<not> js_le x NaN"
  by (cases x; simp add: js_le_def)+

lemma js_le_refl: "x \<noteq> NaN \<Longrightarrow> js_le x x"
  by (cases x) (simp_all add: js_le_def)

lemma js_le_trans: "js_le x y \<Longrightarrow> js_le y z \<Longrightarrow> js_le x z"
  by (cases x; cases y; cases z) (auto simp: js_le_def)

lemma js_le_PosInfinity [simp]: "js_le x PosInfinity \<longleftrightarrow> x \<noteq> NaN"
  by (cases x) (simp_all add: js_le_def)

lemma js_le_NegInfinity [simp]: "js_le NegInfinity y \<longleftrightarrow> y \<noteq> NaN"
  by (cases y) (simp_all add: js_le_def)

lemma js_le_infinite [simp]:
  "\<not> js_le (Num a) NegInfinity" "\<not> js_le PosInfinity (Num a)" "\<not> js_le PosInfinity NegInfinity"
  by (simp_all add: js_le_def)

lemma js_add_NaN_right [simp]: "js_add x NaN = NaN"
  by (cases x) simp_all

lemma rounded_NaN_iff [simp]: "rounded x = NaN \<longleftrightarrow> x = NaN"
  by (cases x) simp_all

lemma rounded_mono:
  assumes "js_le x y"
  shows "js_le (rounded x) (rounded y)"
  using assms by (cases x; cases y) (simp_all add: round_double_mono)

lemma rounded_idem: "rounded (rounded x) = rounded x"
proof (cases x)
  case (Num a)
  show ?thesis
  proof (cases "round_double a")
    case (Num r)
    then have "round_double r = Num r" using round_double_idem [of a r] by (simp add: is_double_def)
    with Num \<open>x = Num a\<close> show ?thesis by simp
  qed (use Num in simp_all)
qed simp_all

lemma times_100_mono: "js_le x y \<Longrightarrow> js_le (js_mul x (Num 100)) (js_mul y (Num 100))"
  by (cases x; cases y) simp_all

lemma math_round_mono: "js_le x y \<Longrightarrow> js_le (math_round x) (math_round y)"
  by (cases x; cases y) (simp_all add: js_round_def floor_mono)

lemma div_100_mono: "js_le x y \<Longrightarrow> js_le (js_div x (Num 100)) (js_div y (Num 100))"
  by (cases x; cases y) simp_all

lemma cents_mono:
  assumes "js_le x y"
  shows "js_le (cents x) (cents y)"
  unfolding cents_def dbl_div_def dbl_mul_def
  by (intro rounded_mono div_100_mono math_round_mono times_100_mono assms)

lemma cents_NaN_iff [simp]: "cents x = NaN \<longleftrightarrow> x = NaN"
proof (cases x)
  case (Num a)
  then show ?thesis
    by (cases "round_double (a * 100)") (simp_all add: cents_def dbl_div_def dbl_mul_def)
qed (simp_all add: cents_def dbl_div_def dbl_mul_def)

text \<open>
  A step that is not negative never moves the price down: the sum is the price or a
  double above it, or it is \<^verbatim>\<open>NaN\<close> (from \<^verbatim>\<open>-Infinity + Infinity\<close>), which
  ends the loop.
\<close>

lemma dbl_add_grows:
  assumes "rounded price = price" "js_le (Num 0) step"
  shows "dbl_add price step = NaN \<or> js_le price (dbl_add price step)"
proof (cases price)
  case (Num p)
  show ?thesis
  proof (cases step)
    case (Num s)
    with assms(2) have "p \<le> p + s" by simp
    then have "js_le (round_double p) (round_double (p + s))" by (rule round_double_mono)
    with assms(1) Num \<open>price = Num p\<close> show ?thesis by (simp add: dbl_add_def)
  qed (use assms Num in \<open>simp_all add: dbl_add_def\<close>)
qed (use assms in \<open>cases step; simp_all add: dbl_add_def\<close>)+

lemma price_loop_sorted:
  assumes "price_loop price0 maxPrice0 step0 prices0 = Some result0"
  shows "(step0 = NaN \<or> js_le (Num 0) step0) \<longrightarrow> sorted_wrt js_le prices0 \<longrightarrow>
     (price0 = NaN \<or> rounded price0 = price0 \<and> (\<forall>x\<in>set prices0. js_le x (cents price0))) \<longrightarrow>
     sorted_wrt js_le result0"
proof (rule price_loop.raw_induct [OF _ assms])
  fix f price maxPrice step prices result
  assume IH: "\<And>p m s ps r. f p m s ps = Some r \<Longrightarrow>
      (s = NaN \<or> js_le (Num 0) s) \<longrightarrow> sorted_wrt js_le ps \<longrightarrow>
      (p = NaN \<or> rounded p = p \<and> (\<forall>x\<in>set ps. js_le x (cents p))) \<longrightarrow> sorted_wrt js_le r"
    and body: "(if js_le price maxPrice
                then f (dbl_add price step) maxPrice step
                       (prices @ [dbl_div (math_round (dbl_mul price (Num 100))) (Num 100)])
                else Some prices) = Some result"
  show "(step = NaN \<or> js_le (Num 0) step) \<longrightarrow> sorted_wrt js_le prices \<longrightarrow>
     (price = NaN \<or> rounded price = price \<and> (\<forall>x\<in>set prices. js_le x (cents price))) \<longrightarrow>
     sorted_wrt js_le result"
  proof (intro impI)
    assume step: "step = NaN \<or> js_le (Num 0) step"
      and sorted: "sorted_wrt js_le prices"
      and inv: "price = NaN \<or> rounded price = price \<and> (\<forall>x\<in>set prices. js_le x (cents price))"
    show "sorted_wrt js_le result"
    proof (cases "js_le price maxPrice")
      case False
      with body sorted show ?thesis by simp
    next
      case True
      then have ne: "price \<noteq> NaN" by auto
      with inv have fixed: "rounded price = price"
        and below: "\<forall>x\<in>set prices. js_le x (cents price)" by simp_all
      let ?next = "dbl_add price step"
      from True body have call: "f ?next maxPrice step (prices @ [cents price]) = Some result"
        by (simp add: cents_def)
      have "sorted_wrt js_le (prices @ [cents price])"
        using sorted below by (simp add: sorted_wrt_append)
      moreover have "?next = NaN \<or>
          rounded ?next = ?next \<and> (\<forall>x\<in>set (prices @ [cents price]). js_le x (cents ?next))"
      proof (cases "?next = NaN")
        case False
        then have "step \<noteq> NaN" by (auto simp: dbl_add_def)
        with step have "js_le (Num 0) step" by simp
        with fixed False have "js_le price ?next" using dbl_add_grows by blast
        then have up: "js_le (cents price) (cents ?next)" by (rule cents_mono)
        have "js_le x (cents ?next)" if "x \<in> set prices" for x
          using below that up js_le_trans by blast
        moreover have "rounded ?next = ?next" by (simp add: dbl_add_def rounded_idem)
        ultimately show ?thesis using up by simp
      qed simp
      ultimately show ?thesis using IH [OF call] step by blast
    qed
  qed
qed

lemma generatePriceRange_sorted:
  assumes "generatePriceRange currentPrice rangeFactor = Some prices"
  shows "sorted_wrt js_le prices"
proof -
  define minPrice where "minPrice = dbl_mul (Num currentPrice) (dbl_sub (Num 2) (Num rangeFactor))"
  define maxPrice where "maxPrice = dbl_mul (Num currentPrice) (Num rangeFactor)"
  define step where "step = dbl_div (dbl_sub maxPrice minPrice) (Num 200)"
  have loop: "price_loop minPrice maxPrice step [] = Some prices"
    using assms by (simp add: generatePriceRange_def Let_def minPrice_def maxPrice_def step_def)
  show ?thesis
  proof (cases "js_le minPrice maxPrice")
    case False
    then have "price_loop minPrice maxPrice step [] = Some []"
      by (subst price_loop.simps) simp
    with loop show ?thesis by simp
  next
    case True
    have "js_sub maxPrice minPrice = NaN \<or> js_le (Num 0) (js_sub maxPrice minPrice)"
      using True by (cases minPrice; cases maxPrice) (simp_all add: js_sub_def)
    then have "dbl_sub maxPrice minPrice = NaN \<or> js_le (Num 0) (dbl_sub maxPrice minPrice)"
      unfolding dbl_sub_def using rounded_mono [of "Num 0" "js_sub maxPrice minPrice"] by auto
    then have "step = NaN \<or> js_le (Num 0) step"
      unfolding step_def dbl_div_def
      using rounded_mono [of "Num 0" "js_div (dbl_sub maxPrice minPrice) (Num 200)"]
      by (cases "dbl_sub maxPrice minPrice") auto
    moreover have "rounded minPrice = minPrice"
      by (simp add: minPrice_def dbl_mul_def rounded_idem)
    ultimately show ?thesis using price_loop_sorted [OF loop] by simp
  qed
qed

subsection \<open>A range factor below 1\<close>

text \<open>
  The largest double below 1 is \<open>1 - 2 ^ -53\<close>. For a price in the normal range the
  product of the price and a factor below 1 rounds to a double below the price, so the
  upper end of the range is below the lower one and the loop is never entered.
\<close>

lemma double_below_one:
  assumes "is_double k" "k < 1"
  shows "k \<le> 1 - 1 / 2 ^ 53"
proof (cases "k < 1 / 2")
  case True
  then show ?thesis by simp
next
  case False
  define n where "n = round_half_even (k / 2 powi (- 1 - 52))"
  have "round_real k = of_int n * 2 powi (- 1 - 52)"
    unfolding n_def using False assms(2) by (intro round_real_at) simp_all
  moreover have "round_real k = k" using assms(1) by (simp add: is_double_iff)
  ultimately have k: "k = of_int n / 2 ^ 53" by (simp add: power_int_minus_divide)
  with assms(2) have "real_of_int n < 2 ^ 53" by simp
  then have "n < 2 ^ 53" by (simp only: of_int_less_numeral_power_cancel_iff)
  then have "real_of_int n \<le> 2 ^ 53 - 1" by simp
  then show ?thesis unfolding k by (simp add: field_simps)
qed

lemma round_real_below:
  assumes "2 powi (- 1000) \<le> c" "k \<le> 1 - 1 / 2 ^ 53"
  shows "round_real (c * k) < c"
proof (cases "c * k < 2 powi (- 1022)")
  case True
  then have "round_real (c * k) \<le> round_real (2 powi (- 1022))"
    by (intro round_real_mono) simp
  also have "\<dots> = 2 powi (- 1022)" by (rule round_real_powi) simp
  also have "\<dots> < (2::real) powi (- 1000)" by (simp only: powi_two_less_iff)
  finally show ?thesis using assms(1) by linarith
next
  case False
  have pos: "(0::real) < 2 powi (- 1022)" "(0::real) < 2 powi (- 1000)" by (rule powi_two_pos)+
  then have c: "0 < c" and ck: "0 < c * k" using assms(1) False by linarith+
  define u :: real where "u = 1 / 2 ^ 53"
  have u: "0 < u" by (simp add: u_def)
  have "\<bar>round_real (c * k) - c * k\<bar> \<le> \<bar>c * k\<bar> / 2 ^ 53"
    using False ck by (intro round_real_relative) simp
  moreover have "\<bar>c * k\<bar> = c * k" using ck by simp
  ultimately have "round_real (c * k) \<le> c * k + c * k / 2 ^ 53" by linarith
  also have "\<dots> = c * k * (1 + u)" by (simp add: u_def algebra_simps)
  also have "c * k \<le> c * (1 - u)"
    using assms(2) c unfolding u_def by (intro mult_left_mono) simp_all
  then have "c * k * (1 + u) \<le> c * (1 - u) * (1 + u)"
    using u by (intro mult_right_mono) simp_all
  also have "c * (1 - u) * (1 + u) = c - c * u * u" by (simp add: algebra_simps)
  also have "\<dots> < c" using c u by simp
  finally show ?thesis .
qed

lemma generatePriceRange_empty:
  assumes "is_double currentPrice" "2 powi (- 1000) \<le> currentPrice"
    "is_double rangeFactor" "rangeFactor < 1"
  shows "generatePriceRange currentPrice rangeFactor = Some []"
proof -
  define minPrice where "minPrice = dbl_mul (Num currentPrice) (dbl_sub (Num 2) (Num rangeFactor))"
  define maxPrice where "maxPrice = dbl_mul (Num currentPrice) (Num rangeFactor)"
  have "(0::real) < 2 powi (- 1000)" by (rule powi_two_pos)
  then have pos: "0 < currentPrice" using assms(2) by linarith
  have c: "round_double currentPrice = Num currentPrice"
    using assms(1) by (simp only: is_double_def)
  have fin: "\<bar>currentPrice\<bar> < 2 powi 1024"
    using assms(1) unfolding is_double_iff by blast
  have "js_le (round_double 1) (round_double (2 - rangeFactor))"
    using assms(4) by (intro round_double_mono) simp
  moreover have "round_double 1 = Num 1"
    using is_double_of_int [of 1] by (simp add: is_double_def)
  ultimately have "js_le (Num 1) (dbl_sub (Num 2) (Num rangeFactor))"
    by (simp add: dbl_sub_def)
  then have "js_le (js_mul (Num currentPrice) (Num 1))
      (js_mul (Num currentPrice) (dbl_sub (Num 2) (Num rangeFactor)))"
    using pos by (cases "dbl_sub (Num 2) (Num rangeFactor)") simp_all
  then have "js_le (rounded (js_mul (Num currentPrice) (Num 1))) minPrice"
    unfolding minPrice_def dbl_mul_def by (rule rounded_mono)
  then have low: "js_le (Num currentPrice) minPrice" using c by simp
  have below: "round_real (currentPrice * rangeFactor) < currentPrice"
    using assms(2) double_below_one [OF assms(3,4)] by (rule round_real_below)
  define top :: real where "top = 2 powi 1024"
  have "\<not> js_le (Num currentPrice) (round_double (currentPrice * rangeFactor))"
  proof (rule round_double_cases [of "currentPrice * rangeFactor"])
    assume "round_double (currentPrice * rangeFactor) = Num (round_real (currentPrice * rangeFactor))"
    then show ?thesis using below by simp
  next
    assume "round_double (currentPrice * rangeFactor) = NegInfinity"
    then show ?thesis by simp
  next
    assume "2 powi 1024 \<le> round_real (currentPrice * rangeFactor)"
    then have "top \<le> round_real (currentPrice * rangeFactor)" by (simp only: top_def)
    moreover have "\<bar>currentPrice\<bar> < top" using fin by (simp only: top_def)
    ultimately have False using below by linarith
    then show ?thesis ..
  qed
  then have "\<not> js_le (Num currentPrice) maxPrice" by (simp add: maxPrice_def dbl_mul_def)
  with low have "\<not> js_le minPrice maxPrice" using js_le_trans by blast
  then have "price_loop minPrice maxPrice (dbl_div (dbl_sub maxPrice minPrice) (Num 200)) [] = Some []"
    by (subst price_loop.simps) simp
  then show ?thesis
    by (simp add: generatePriceRange_def Let_def minPrice_def maxPrice_def)
qed

subsection \<open>The wide grid of an ordinary price\<close>








section \<open>Claims about the price grid\<close>

lemma sorted_wrt_map_upt:
  assumes "\<And>i j. i < j \<Longrightarrow> j < n \<Longrightarrow> R (f i) (f j)"
  shows "sorted_wrt R (map f [0..<n])"
  using assms by (simp add: sorted_wrt_iff_nth_less)

text \<open>
  C2. \<^verbatim>\<open>generatePriceRange(100, 1.5)\<close> returns exactly 201 values, strictly
  increasing, the first 50.00 and the last 150.00: the values \<open>50 + k / 2\<close> for
  \<open>k = 0, ..., 200\<close>. The step is 1/2 and every sum of the loop is exact.
\<close>

theorem generatePriceRange_100:
  "\<exists>prices. generatePriceRange 100 (3 / 2) = Some prices \<and> length prices = 201 \<and>
     sorted_wrt js_lt prices \<and> hd prices = Num 50 \<and> last prices = Num 150 \<and>
     prices = map (\<lambda>k. Num (50 + real k / 2)) [0..<201]"
proof -
  let ?prices = "map (\<lambda>k. Num (50 + real k / 2)) [0..<201]"
  have "sorted_wrt js_lt ?prices"
    by (rule sorted_wrt_map_upt) simp
  moreover have "hd ?prices = Num 50"
    by (simp add: hd_map upt_conv_Cons del: upt_Suc)
  moreover have "last ?prices = Num 150"
    by (simp add: last_map)
  ultimately show ?thesis using grid_100 by simp
qed

text \<open>
  C9 fails on doubles. \<^verbatim>\<open>generatePriceRange(100, 1.0000000000000002)\<close> has a positive
  current price and a range factor above 1 (the next double after 1, \<open>1 + 2 ^ -52\<close>),
  and its step is positive, \<open>5764607523034235 / 2 ^ 104\<close>. The loop starts at
  \<open>100 - 2 ^ -45\<close>, and there the price plus the step is the price again: the loop
  variable does not increase and the loop never leaves.
\<close>

theorem generatePriceRange_narrow_factor:
  "is_double 100 \<and> is_double (1 + 1 / 2 ^ 52) \<and> (0::real) < 100 \<and> (1::real) < 1 + 1 / 2 ^ 52 \<and>
   dbl_mul (Num 100) (dbl_sub (Num 2) (Num (1 + 1 / 2 ^ 52))) = Num (100 - 1 / 2 ^ 45) \<and>
   dbl_mul (Num 100) (Num (1 + 1 / 2 ^ 52)) = Num (100 + 1 / 2 ^ 45) \<and>
   dbl_div (dbl_sub (Num (100 + 1 / 2 ^ 45)) (Num (100 - 1 / 2 ^ 45))) (Num 200) =
     Num (5764607523034235 / 2 ^ 104) \<and>
   (0::real) < 5764607523034235 / 2 ^ 104 \<and>
   js_le (Num (100 - 1 / 2 ^ 45)) (Num (100 + 1 / 2 ^ 45)) \<and>
   dbl_add (Num (100 - 1 / 2 ^ 45)) (Num (5764607523034235 / 2 ^ 104)) = Num (100 - 1 / 2 ^ 45) \<and>
   generatePriceRange 100 (1 + 1 / 2 ^ 52) = None"
proof -
  have "is_double 100" using is_double_of_int [of 100] by simp
  moreover have "is_double (1 + 1 / 2 ^ 52)"
    using is_double_dyadic [of 4503599627370497 52] by simp
  moreover have "dbl_mul (Num 100) (dbl_sub (Num 2) (Num (1 + 1 / 2 ^ 52))) = Num (100 - 1 / 2 ^ 45)"
    unfolding narrow_factor by (rule narrow_min)
  moreover have "dbl_div (dbl_sub (Num (100 + 1 / 2 ^ 45)) (Num (100 - 1 / 2 ^ 45))) (Num 200) =
      Num (5764607523034235 / 2 ^ 104)"
    unfolding narrow_width by (rule narrow_step)
  moreover have "js_le (Num (100 - 1 / 2 ^ 45)) (Num (100 + 1 / 2 ^ 45))" by simp
  ultimately show ?thesis using narrow_max narrow_sum narrow_grid by simp
qed

text \<open>
  C6, as the code has it. \<^verbatim>\<open>generatePriceRange\<close> rejects nothing. For a current
  price that is a double of at least \<open>2 ^ -1000\<close> and a range factor below 1 it returns
  the empty grid; with a range factor of 1 it never returns. A grid that it returns,
  whatever the arguments, is weakly increasing: the prices are rounded to cents, and
  neighbours can round to the same cent.
\<close>

theorem generatePriceRange_no_rejection:
  "(is_double currentPrice \<and> 2 powi (- 1000) \<le> currentPrice \<and>
    is_double rangeFactor \<and> rangeFactor < 1 \<longrightarrow>
      generatePriceRange currentPrice rangeFactor = Some []) \<and>
   (is_double currentPrice \<longrightarrow> generatePriceRange currentPrice 1 = None) \<and>
   (generatePriceRange currentPrice rangeFactor = Some prices \<longrightarrow> sorted_wrt js_le prices)"
  using generatePriceRange_empty generatePriceRange_factor_one generatePriceRange_sorted
  by blast

lemma ordinary_price_100: "ordinary_price 100"
proof -
  have "is_double 100" using is_double_of_int [of 100] by simp
  moreover have "(2::real) powi (- 1000) \<le> 2 powi 0" by (simp only: powi_two_le_iff)
  then have "2 powi (- 1000) \<le> (100::real)" by simp
  moreover have "(2::real) powi 7 \<le> 2 powi 1000" by (simp only: powi_two_le_iff)
  then have "(100::real) \<le> 2 powi 1000" by simp
  ultimately show ?thesis by (simp only: ordinary_price_def simp_thms)
qed

theorem generatePriceRange_no_rejection_witness:
  "is_double 100 \<and> 2 powi (- 1000) \<le> (100::real) \<and> is_double (1 / 2) \<and> (1 / 2 :: real) < 1 \<and>
   generatePriceRange 100 (1 / 2) = Some [] \<and>
   generatePriceRange 100 1 = None \<and>
   generatePriceRange 100 (3 / 2) = Some (map (\<lambda>k. Num (50 + real k / 2)) [0..<201]) \<and>
   sorted_wrt js_le (map (\<lambda>k. Num (50 + real k / 2)) [0..<201])"
proof -
  have price: "is_double 100" "2 powi (- 1000) \<le> (100::real)"
    using ordinary_price_100 by (simp_all only: ordinary_price_def)
  have factor: "is_double (1 / 2)" "(1 / 2 :: real) < 1"
    using is_double_halves [of 1] by simp_all
  from generatePriceRange_no_rejection [of 100 "1 / 2"] price factor
  have empty: "generatePriceRange 100 (1 / 2) = Some []" and one: "generatePriceRange 100 1 = None"
    by blast+
  from generatePriceRange_no_rejection [of 100 "3 / 2" "map (\<lambda>k. Num (50 + real k / 2)) [0..<201]"]
    grid_100
  have "sorted_wrt js_le (map (\<lambda>k. Num (50 + real k / 2)) [0..<201])" by blast
  with price factor empty one grid_100 show ?thesis by blast
qed

text \<open>
  The claim C6 as stated fails twice: \<^verbatim>\<open>generatePriceRange(100, 0.5)\<close> returns the
  empty grid and no error, and the grid of the valid call
  \<^verbatim>\<open>generatePriceRange(0.78125, 1.5)\<close> (step 1/256) starts with the same price twice,
  the double nearest to 0.39.
\<close>

theorem generatePriceRange_rejects_counterexample:
  "generatePriceRange 100 (1 / 2) = Some [] \<and>
   take 2 (the (generatePriceRange (25 / 32) (3 / 2))) =
     [round_double (39 / 100), round_double (39 / 100)]"
proof -
  have "is_double 100" "2 powi (- 1000) \<le> (100::real)"
    using ordinary_price_100 by (simp_all only: ordinary_price_def)
  moreover have "is_double (1 / 2)" using is_double_halves [of 1] by simp
  ultimately have "generatePriceRange 100 (1 / 2) = Some []"
    by (intro generatePriceRange_empty) simp_all
  moreover have "take 2 (the (generatePriceRange (25 / 32) (3 / 2))) =
      [round_double (39 / 100), round_double (39 / 100)]"
  proof -
    have "[0..<201] = 0 # [Suc 0..<201]" "[Suc 0..<201] = Suc 0 # [Suc (Suc 0)..<201]"
      by (rule upt_conv_Cons; simp)+
    then show ?thesis
      unfolding grid_small by (simp add: grid_small_first grid_small_second del: upt_Suc)
  qed
  ultimately show ?thesis by simp
qed

section \<open>Profit and loss at expiration\<close>

lemma long_call_pl:
  "calculateProfitLoss getOptionPrice long_call [option_leg k p] (Num s) 0 =
     Inr (Num ((max (s - k) 0 - p) * 1 * 100))"
  by (simp add: calculateProfitLoss_def legPL_def optionValue_def long_call_def option_leg_def)

lemma short_call_pl:
  "calculateProfitLoss getOptionPrice short_call [option_leg k p] (Num s) 0 =
     Inr (Num ((p - max (s - k) 0) * 1 * 100))"
  by (simp add: calculateProfitLoss_def legPL_def optionValue_def short_call_def option_leg_def)

text \<open>
  C1. For the long call with strike 100, premium 5 and quantity 1,
  \<^verbatim>\<open>calculateProfitLoss\<close> at expiration returns exactly -500 at a stock price of
  100 and exactly +500 at 110, whatever the pricer: the rule of a bought option,
  \<open>(intrinsic value - premium) * quantity * 100\<close>, which the third conjunct states for
  every strike, premium and price.
\<close>

theorem long_call_profit_at_expiration:
  "calculateProfitLoss getOptionPrice long_call [option_leg 100 5] (Num 100) 0 = Inr (Num (- 500)) \<and>
   calculateProfitLoss getOptionPrice long_call [option_leg 100 5] (Num 110) 0 = Inr (Num 500) \<and>
   calculateProfitLoss getOptionPrice long_call [option_leg k p] (Num s) 0 =
     Inr (Num ((max (s - k) 0 - p) * 1 * 100))"
  by (simp add: long_call_pl)

lemma bull_spread_pl:
  "calculateProfitLoss getOptionPrice bull_call_spread [option_leg k1 p1, option_leg k2 p2] (Num s) 0 =
     Inr (Num (0 + (max (s - k1) 0 - p1) * 1 * 100 + (p2 - max (s - k2) 0) * 1 * 100))"
  by (simp add: calculateProfitLoss_def legPL_def optionValue_def bull_call_spread_def option_leg_def)




lemma calculateProfitLossArray_pointwise:
  assumes "\<And>price. price \<in> set prices \<Longrightarrow>
     calculateProfitLoss getOptionPrice strategy legInstances price t = Inr (f price)"
  shows "calculateProfitLossArray getOptionPrice strategy legInstances prices t = Inr (map f prices)"
  using assms by (induction prices) simp_all

lemma calculateProfitLossArray_samples:
  assumes "\<And>s. calculateProfitLoss getOptionPrice strategy legInstances (Num s) t = Inr (Num (h s))"
  shows "calculateProfitLossArray getOptionPrice strategy legInstances (map (\<lambda>k. Num (g k)) ks) t =
     Inr (map (\<lambda>k. Num (h (g k))) ks)"
  using assms by (induction ks) simp_all


section \<open>The pricer's arguments\<close>

text \<open>
  Before expiration the value of an option leg is the pricer's, called with the leg's
  type and strike and with \<^verbatim>\<open>leg.riskFreeRate || 0.05\<close> and
  \<^verbatim>\<open>leg.volatility || 0.25\<close>: the stored rate and volatility where each is present
  and not zero, and the default in place of one that is missing or zero.
\<close>

lemma pricer_arguments:
  assumes "timeToExpiry \<noteq> 0"
  shows "optionValue getOptionPrice strategyLeg leg stockPrice timeToExpiry =
       getOptionPrice (pricer_option strategyLeg leg timeToExpiry) stockPrice timeToExpiry"
    and "opt_type (pricer_option strategyLeg leg timeToExpiry) = type strategyLeg"
    and "opt_strike (pricer_option strategyLeg leg timeToExpiry) = strike leg"
    and "opt_timeToExpiry (pricer_option strategyLeg leg timeToExpiry) = timeToExpiry"
    and "riskFreeRate leg = Some r \<Longrightarrow> r \<noteq> 0 \<Longrightarrow>
        opt_riskFreeRate (pricer_option strategyLeg leg timeToExpiry) = r"
    and "volatility leg = Some v \<Longrightarrow> v \<noteq> 0 \<Longrightarrow>
        opt_volatility (pricer_option strategyLeg leg timeToExpiry) = v"
    and "volatility leg = None \<or> volatility leg = Some 0 \<Longrightarrow>
        opt_volatility (pricer_option strategyLeg leg timeToExpiry) = 25 / 100"
    and "riskFreeRate leg = None \<or> riskFreeRate leg = Some 0 \<Longrightarrow>
        opt_riskFreeRate (pricer_option strategyLeg leg timeToExpiry) = 5 / 100"
  using assms by (auto simp: optionValue_def pricer_option_def)

text \<open>
  C5 fails on a leg whose stored rate is 0, a valid rate: the long call with strike 100,
  premium 0, rate 0 and volatility 0.25, one year before expiration. The pricer is
  called with a rate of 0.05, not with the stored rate of 0, so a pricer that returns
  the rate it is given values the position at \<open>(0.05 - 0) * 1 * 100 = 5\<close>, where the
  stored rate gives 0. A leg that stores a rate of 3 percent is valued with 3 percent.
  The same \<^verbatim>\<open>||\<close> replaces a stored volatility of 0 by 0.25, and no error is raised.
\<close>

theorem zero_rate_replaced:
  "riskFreeRate zero_rate_leg = Some 0 \<and> volatility zero_rate_leg = Some (25 / 100) \<and>
   opt_riskFreeRate (pricer_option (hd (legs long_call)) zero_rate_leg 1) = 5 / 100 \<and>
   opt_volatility (pricer_option (hd (legs long_call)) zero_rate_leg 1) = 25 / 100 \<and>
   calculateProfitLoss rate_probe long_call [zero_rate_leg] (Num 100) 1 = Inr (Num 5) \<and>
   riskFreeRate priced_leg = Some (3 / 100) \<and>
   opt_riskFreeRate (pricer_option (hd (legs long_call)) priced_leg 1) = 3 / 100 \<and>
   volatility flat_volatility_leg = Some 0 \<and>
   opt_volatility (pricer_option (hd (legs long_call)) flat_volatility_leg 1) = 25 / 100 \<and>
   calculateProfitLoss volatility_probe long_call [flat_volatility_leg] (Num 100) 1 = Inr (Num 25)"
  by (simp add: calculateProfitLoss_def legPL_def optionValue_def long_call_def
      zero_rate_leg_def priced_leg_def flat_volatility_leg_def pricer_option_def
      rate_probe_def volatility_probe_def)

section \<open>Breakevens on the default grid\<close>

lemma breakeven_loop_filter:
  "breakeven_loop priceRange profits i breakevens =
     breakevens @ map (interpolate priceRange profits) (filter (crossing profits) [i..<length profits])"
proof (induction priceRange profits i breakevens rule: breakeven_loop.induct)
  case (1 priceRange profits i breakevens)
  show ?case
  proof (cases "i < length profits")
    case True
    then have "[i..<length profits] = i # [i + 1..<length profits]"
      by (simp add: upt_conv_Cons)
    with True 1 show ?thesis
      by (subst breakeven_loop.simps) simp
  next
    case False
    then show ?thesis by (subst breakeven_loop.simps) simp
  qed
qed

lemma filter_upt_interval:
  assumes "\<And>i. a \<le> i \<Longrightarrow> i < b \<Longrightarrow> P i = (lo \<le> i \<and> i < hi)" "a \<le> lo" "hi \<le> b"
  shows "filter P [a..<b] = [lo..<hi]"
proof (rule sorted_distinct_set_unique)
  show "sorted (filter P [a..<b])" by (simp add: sorted_wrt_filter)
  show "set (filter P [a..<b]) = set [lo..<hi]" using assms by auto
qed simp_all

lemma crossing_samples:
  assumes "0 < i" "i < n"
  shows "crossing (map (\<lambda>k. Num (g k)) [0..<n]) i =
     ((g (i - 1) \<le> 0 \<and> 0 \<le> g i) \<or> (0 \<le> g (i - 1) \<and> g i \<le> 0))"
  using assms by (simp add: crossing_def js_nth_samples js_nth_samples_pred)

lemma interpolate_samples:
  assumes "0 < i" "i < n"
  shows "interpolate (map (\<lambda>k. Num (x k)) [0..<n]) (map (\<lambda>k. Num (y k)) [0..<n]) i =
     js_add (Num (x (i - 1)))
       (js_mul (js_div (Num \<bar>y (i - 1)\<bar>) (Num (\<bar>y (i - 1)\<bar> + \<bar>y i\<bar>))) (Num (x i - x (i - 1))))"
  using assms
  by (simp add: interpolate_def divisor_def js_nth_samples js_nth_samples_pred del: js_div.simps)

text \<open>
  Where the two neighbours of a crossing are finite and not both zero, the divisor is
  positive and the breakeven lies between the two prices.
\<close>

lemma interpolate_between:
  assumes "js_nth profits (int i - 1) = Num a" "js_nth profits (int i) = Num b" "a \<noteq> 0 \<or> b \<noteq> 0"
    "js_nth priceRange (int i - 1) = Num x0" "js_nth priceRange (int i) = Num x1" "x0 \<le> x1"
  shows "\<exists>r. divisor profits i = Num (\<bar>a\<bar> + \<bar>b\<bar>) \<and> 0 < \<bar>a\<bar> + \<bar>b\<bar> \<and>
     interpolate priceRange profits i = Num r \<and> x0 \<le> r \<and> r \<le> x1"
proof -
  let ?d = "\<bar>a\<bar> + \<bar>b\<bar>"
  let ?ratio = "\<bar>a\<bar> / ?d"
  have d: "0 < ?d" using assms(3) by auto
  then have ratio: "0 \<le> ?ratio" "?ratio \<le> 1" by simp_all
  have "interpolate priceRange profits i = Num (x0 + ?ratio * (x1 - x0))"
    using d by (simp add: interpolate_def divisor_def assms)
  moreover have "x0 \<le> x0 + ?ratio * (x1 - x0)"
    using ratio assms(6) by simp
  moreover have "?ratio * (x1 - x0) \<le> 1 * (x1 - x0)"
    using ratio assms(6) by (intro mult_right_mono) simp_all
  then have "x0 + ?ratio * (x1 - x0) \<le> x1" by simp
  moreover have "divisor profits i = Num ?d" by (simp add: divisor_def assms)
  ultimately show ?thesis using d by blast
qed

lemma long_call_curve_sign:
  "long_call_curve k \<le> 0 \<longleftrightarrow> k \<le> 110" "0 \<le> long_call_curve k \<longleftrightarrow> 110 \<le> k"
  by (auto simp: long_call_curve_def max_def)

lemma long_call_profits:
  "calculateProfitLossArray getOptionPrice long_call [option_leg 100 5]
     (map (\<lambda>k. Num (50 + real k / 2)) [0..<201]) 0 = Inr (map (\<lambda>k. Num (long_call_curve k)) [0..<201])"
  unfolding long_call_curve_def by (rule calculateProfitLossArray_samples) (rule long_call_pl)

lemma long_call_crossings:
  "filter (crossing (map (\<lambda>k. Num (long_call_curve k)) [0..<201])) [1..<201] = [110..<112]"
proof (rule filter_upt_interval)
  fix i :: nat
  assume "1 \<le> i" "i < 201"
  then have "crossing (map (\<lambda>k. Num (long_call_curve k)) [0..<201]) i =
     ((long_call_curve (i - 1) \<le> 0 \<and> 0 \<le> long_call_curve i) \<or>
      (0 \<le> long_call_curve (i - 1) \<and> long_call_curve i \<le> 0))"
    by (intro crossing_samples) simp_all
  also have "\<dots> = (110 \<le> i \<and> i < 112)"
    unfolding long_call_curve_sign by auto
  finally show "crossing (map (\<lambda>k. Num (long_call_curve k)) [0..<201]) i = (110 \<le> i \<and> i < 112)" .
qed simp_all

lemma long_call_unfold:
  "findBreakevens getOptionPrice long_call [option_leg 100 5] 100 =
     Some (Inr (breakeven_loop (map (\<lambda>k. Num (50 + real k / 2)) [0..<201])
                  (map (\<lambda>k. Num (long_call_curve k)) [0..<201]) 1 []))"
  by (simp only: findBreakevens_def grid_100 long_call_profits option.case sum.case)

lemma long_call_scan:
  "breakeven_loop (map (\<lambda>k. Num (50 + real k / 2)) [0..<201])
     (map (\<lambda>k. Num (long_call_curve k)) [0..<201]) 1 [] = [Num 105, Num 105]"
proof -
  let ?prices = "map (\<lambda>k. Num (50 + real k / 2)) [0..<201]"
  let ?profits = "map (\<lambda>k. Num (long_call_curve k)) [0..<201]"
  have two: "[110..<112] = [110, 111::nat]" by simp
  have len: "length ?profits = 201" by simp
  have "breakeven_loop ?prices ?profits 1 [] =
     [interpolate ?prices ?profits 110, interpolate ?prices ?profits 111]"
    unfolding breakeven_loop_filter len long_call_crossings two by simp
  also have "interpolate ?prices ?profits 110 = Num 105"
    by (subst interpolate_samples) (simp_all add: long_call_curve_def)
  also have "interpolate ?prices ?profits 111 = Num 105"
    by (subst interpolate_samples) (simp_all add: long_call_curve_def)
  finally show ?thesis .
qed

text \<open>
  C3, as the code has it. For the long call with strike 100 and premium 5 and a current
  price of 100, \<^verbatim>\<open>findBreakevens\<close> returns the two-element list [105, 105]: the
  curve is exactly zero at the grid price 105, which is a crossing for the interval that
  ends there and for the interval that starts there.
\<close>

theorem long_call_breakevens:
  "findBreakevens getOptionPrice long_call [option_leg 100 5] 100 =
     Some (Inr [Num 105, Num 105])"
  by (simp only: long_call_unfold long_call_scan)

text \<open>
  The claim C3 as stated, a one-element list [105], fails.
\<close>

theorem long_call_single_breakeven_counterexample:
  "findBreakevens volatility_probe long_call [option_leg 100 5] 100 \<noteq> Some (Inr [Num 105])"
proof -
  have "findBreakevens volatility_probe long_call [option_leg 100 5] 100 =
      Some (Inr [Num 105, Num 105])"
    by (simp only: long_call_unfold long_call_scan)
  then show ?thesis by simp
qed

lemma bull_spread_curve_sign:
  "bull_spread_curve k \<le> 0 \<longleftrightarrow> k \<le> 100" "0 \<le> bull_spread_curve k"
  by (auto simp: bull_spread_curve_def max_def)

lemma bull_spread_curve_zero: "k \<le> 100 \<Longrightarrow> bull_spread_curve k = 0"
  by (auto simp: bull_spread_curve_def max_def)

lemma bull_spread_profits:
  "calculateProfitLossArray getOptionPrice bull_call_spread [option_leg 100 5, option_leg 105 5]
     (map (\<lambda>k. Num (50 + real k / 2)) [0..<201]) 0 = Inr (map (\<lambda>k. Num (bull_spread_curve k)) [0..<201])"
  unfolding bull_spread_curve_def by (rule calculateProfitLossArray_samples) (rule bull_spread_pl)

lemma bull_spread_crossings:
  "filter (crossing (map (\<lambda>k. Num (bull_spread_curve k)) [0..<201])) [1..<201] = [1..<102]"
proof (rule filter_upt_interval)
  fix i :: nat
  assume "1 \<le> i" "i < 201"
  then have "crossing (map (\<lambda>k. Num (bull_spread_curve k)) [0..<201]) i =
     ((bull_spread_curve (i - 1) \<le> 0 \<and> 0 \<le> bull_spread_curve i) \<or>
      (0 \<le> bull_spread_curve (i - 1) \<and> bull_spread_curve i \<le> 0))"
    by (intro crossing_samples) simp_all
  also have "\<dots> = (1 \<le> i \<and> i < 102)"
    using \<open>1 \<le> i\<close> by (auto simp: bull_spread_curve_sign)
  finally show "crossing (map (\<lambda>k. Num (bull_spread_curve k)) [0..<201]) i = (1 \<le> i \<and> i < 102)" .
qed simp_all

lemma bull_spread_flat:
  assumes "1 \<le> i" "i < 101"
  shows "interpolate (map (\<lambda>k. Num (50 + real k / 2)) [0..<201])
           (map (\<lambda>k. Num (bull_spread_curve k)) [0..<201]) i = NaN"
proof -
  from assms have "bull_spread_curve (i - 1) = 0" "bull_spread_curve i = 0"
    by (simp_all add: bull_spread_curve_zero)
  then show ?thesis using assms by (subst interpolate_samples) simp_all
qed

text \<open>
  C10 fails on the bull call spread whose two premiums are equal (strikes 100 and 105,
  premiums 5 and 5, current price 100). The curve is exactly zero up to the price 100,
  so the first pair of neighbours is a crossing whose divisor is zero: the interpolation
  divides zero by zero and the breakeven is \<^verbatim>\<open>NaN\<close>. \<^verbatim>\<open>findBreakevens\<close>
  returns one hundred \<^verbatim>\<open>NaN\<close> and then 100.
\<close>

theorem bull_spread_breakevens:
  "\<exists>priceRange profits.
     generatePriceRange 100 (3 / 2) = Some priceRange \<and>
     calculateProfitLossArray getOptionPrice bull_call_spread
       [option_leg 100 5, option_leg 105 5] priceRange 0 = Inr profits \<and>
     crossing profits 1 \<and> divisor profits 1 = Num 0 \<and>
     interpolate priceRange profits 1 = NaN \<and>
     findBreakevens getOptionPrice bull_call_spread [option_leg 100 5, option_leg 105 5] 100 =
       Some (Inr (replicate 100 NaN @ [Num 100]))"
proof -
  let ?prices = "map (\<lambda>k. Num (50 + real k / 2)) [0..<201]"
  let ?profits = "map (\<lambda>k. Num (bull_spread_curve k)) [0..<201]"
  have len: "length ?profits = 201" by simp
  have split: "[1..<102] = [1..<101] @ [101]"
    using upt_Suc_append [of 1 101] by simp
  have flat: "map (interpolate ?prices ?profits) [1..<101] = replicate 100 NaN"
  proof -
    have "map (interpolate ?prices ?profits) [1..<101] = map (\<lambda>i. NaN) [1..<101]"
      by (rule map_cong) (simp_all add: bull_spread_flat)
    then show ?thesis by (simp add: map_replicate_const)
  qed
  have edge: "interpolate ?prices ?profits 101 = Num 100"
    by (subst interpolate_samples) (simp_all add: bull_spread_curve_def)
  have "crossing ?profits 1"
    by (subst crossing_samples) (simp_all add: bull_spread_curve_zero)
  moreover have "divisor ?profits 1 = Num 0"
    using js_nth_samples [of 0 201 bull_spread_curve] js_nth_samples [of 1 201 bull_spread_curve]
    by (simp add: divisor_def bull_spread_curve_zero)
  moreover have "interpolate ?prices ?profits 1 = NaN"
    by (rule bull_spread_flat) simp_all
  moreover have "findBreakevens getOptionPrice bull_call_spread [option_leg 100 5, option_leg 105 5] 100 =
      Some (Inr (replicate 100 NaN @ [Num 100]))"
  proof -
    have "findBreakevens getOptionPrice bull_call_spread [option_leg 100 5, option_leg 105 5] 100 =
        Some (Inr (breakeven_loop ?prices ?profits 1 []))"
      by (simp only: findBreakevens_def grid_100 bull_spread_profits option.case sum.case)
    also have "breakeven_loop ?prices ?profits 1 [] =
        map (interpolate ?prices ?profits) [1..<101] @ [interpolate ?prices ?profits 101]"
      unfolding breakeven_loop_filter len bull_spread_crossings split by simp
    finally show ?thesis unfolding flat edge .
  qed
  ultimately show ?thesis using grid_100 bull_spread_profits by metis
qed

section \<open>The maximum loss on the wide grid\<close>

lemma foldl_js_min_Num: "foldl js_min (Num m) (map Num rs) = Num (foldl min m rs)"
  by (induction rs arbitrary: m) simp_all

lemma js_min_list_Num:
  assumes "rs \<noteq> []"
  shows "js_min_list (map Num rs) = Num (Min (set rs))"
proof -
  from assms obtain r rest where rs: "rs = r # rest" by (cases rs) auto
  have "js_min_list (map Num rs) = Num (foldl min r rest)"
    by (simp add: js_min_list_def rs foldl_js_min_Num)
  also have "foldl min r rest = fold min rest r"
    by (induction rest arbitrary: r) (simp_all add: min.commute)
  also have "\<dots> = Min (set rs)"
    unfolding rs by (rule Min.set_eq_fold [symmetric])
  finally show ?thesis .
qed

lemma unlimited_loss_Num:
  assumes "length rs = 201"
  shows "unlimited_loss (map Num rs) (Num m) =
     ((rs ! 0 < rs ! 1 \<and> rs ! 0 = m) \<or> (rs ! 200 < rs ! 199 \<and> rs ! 200 = m))"
  using assms by (simp add: unlimited_loss_def js_nth_def)




text \<open>
  Both branches on concrete positions at a current price of 100: the loss of the long
  call is bounded by its premium, the curve of the short call is still falling at the
  right edge.
\<close>

lemma long_call_wide_profits:
  "calculateProfitLossArray getOptionPrice long_call [option_leg 100 5]
     (map (\<lambda>k. Num (real k)) [0..<201]) 0 = Inr (map Num (map long_call_wide_curve [0..<201]))"
proof -
  have "calculateProfitLossArray getOptionPrice long_call [option_leg 100 5]
     (map (\<lambda>k. Num (real k)) [0..<201]) 0 =
     Inr (map (\<lambda>k. Num ((max (real k - 100) 0 - 5) * 1 * 100)) [0..<201])"
    by (rule calculateProfitLossArray_samples) (rule long_call_pl)
  then show ?thesis by (simp only: map_map comp_def long_call_wide_curve_def)
qed

lemma long_call_wide_min: "Min (set (map long_call_wide_curve [0..<201])) = - 500"
proof (rule Min_eqI)
  show "finite (set (map long_call_wide_curve [0..<201]))" by simp
  have "long_call_wide_curve 0 = - 500" by (simp add: long_call_wide_curve_def)
  then show "- 500 \<in> set (map long_call_wide_curve [0..<201])"
    by (metis (no_types, lifting) imageI set_map set_upt atLeastLessThan_iff zero_less_numeral le0)
  fix y assume "y \<in> set (map long_call_wide_curve [0..<201])"
  then obtain k where "y = long_call_wide_curve k" by auto
  then show "- 500 \<le> y" by (auto simp: long_call_wide_curve_def max_def)
qed

lemma long_call_max_loss:
  "calculateMaxLoss getOptionPrice long_call [option_leg 100 5] 100 = Some (Inr (Num (- 500)))"
proof -
  let ?profits = "map long_call_wide_curve [0..<201]"
  have len: "length ?profits = 201" by simp
  have ne: "?profits \<noteq> []" by simp
  have nth: "?profits ! 0 = long_call_wide_curve 0" "?profits ! 1 = long_call_wide_curve 1"
    "?profits ! 199 = long_call_wide_curve 199" "?profits ! 200 = long_call_wide_curve 200"
    by (simp_all del: upt_Suc)
  have "\<not> unlimited_loss (map Num ?profits) (Num (- 500))"
    unfolding unlimited_loss_Num [OF len] nth by (simp add: long_call_wide_curve_def)
  then show ?thesis
    unfolding calculateMaxLoss_def grid_wide_100
    by (simp only: long_call_wide_profits js_min_list_Num [OF ne] long_call_wide_min
          option.case sum.case Let_def if_False)
qed

lemma short_call_profits:
  "calculateProfitLossArray getOptionPrice short_call [option_leg 100 5]
     (map (\<lambda>k. Num (real k)) [0..<201]) 0 = Inr (map Num (map short_call_curve [0..<201]))"
proof -
  have "calculateProfitLossArray getOptionPrice short_call [option_leg 100 5]
     (map (\<lambda>k. Num (real k)) [0..<201]) 0 =
     Inr (map (\<lambda>k. Num ((5 - max (real k - 100) 0) * 1 * 100)) [0..<201])"
    by (rule calculateProfitLossArray_samples) (rule short_call_pl)
  then show ?thesis by (simp only: map_map comp_def short_call_curve_def)
qed

lemma short_call_min: "Min (set (map short_call_curve [0..<201])) = short_call_curve 200"
proof (rule Min_eqI)
  show "finite (set (map short_call_curve [0..<201]))" by simp
  show "short_call_curve 200 \<in> set (map short_call_curve [0..<201])" by simp
  fix y assume "y \<in> set (map short_call_curve [0..<201])"
  then obtain k where "k < 201" "y = short_call_curve k" by auto
  then show "short_call_curve 200 \<le> y" by (auto simp: short_call_curve_def max_def)
qed

lemma short_call_max_loss:
  "calculateMaxLoss getOptionPrice short_call [option_leg 100 5] 100 = Some (Inr NegInfinity)"
proof -
  let ?profits = "map short_call_curve [0..<201]"
  have len: "length ?profits = 201" by simp
  have ne: "?profits \<noteq> []" by simp
  have nth: "?profits ! 199 = short_call_curve 199" "?profits ! 200 = short_call_curve 200"
    by (simp_all del: upt_Suc)
  have "unlimited_loss (map Num ?profits) (Num (short_call_curve 200))"
    unfolding unlimited_loss_Num [OF len] nth by (simp add: short_call_curve_def)
  then show ?thesis
    unfolding calculateMaxLoss_def grid_wide_100
    by (simp only: short_call_profits js_min_list_Num [OF ne] short_call_min
          option.case sum.case Let_def if_True)
qed

section \<open>The net premium as a sum\<close>

lemma premium_loop_sum:
  "premium_loop strategy legInstances index netPremium =
     js_add netPremium
       (foldr js_add (map (\<lambda>(strategyLeg, leg). premium_contribution strategyLeg leg)
                        (zip (drop index (legs strategy)) legInstances)) (Num 0))"
proof (induction legInstances arbitrary: index netPremium)
  case Nil
  then show ?case by simp
next
  case (Cons leg rest)
  show ?case
  proof (cases "index < length (legs strategy)")
    case True
    then have d: "drop index (legs strategy) = legs strategy ! index # drop (Suc index) (legs strategy)"
      by (simp add: Cons_nth_drop_Suc)
    show ?thesis
      using True Cons.IH [of "Suc index"]
      by (simp add: d premium_contribution_def js_add_assoc js_sub_def)
  next
    case False
    then show ?thesis using Cons.IH [of "Suc index"] by simp
  qed
qed

lemma net_premium_sum_real:
  assumes "list_all2 shape_matches strategyLegs legInstances"
  shows "foldr js_add (map (\<lambda>(strategyLeg, leg). premium_contribution strategyLeg leg)
           (zip strategyLegs legInstances)) (Num 0) =
         Num (\<Sum>(strategyLeg, leg) \<leftarrow> zip strategyLegs legInstances. real_contribution strategyLeg leg)"
  using assms
proof (induction strategyLegs legInstances rule: list_all2_induct)
  case Nil
  then show ?case by simp
next
  case (Cons strategyLeg strategyLegs leg legInstances)
  then show ?case
    by (auto simp: premium_contribution_def real_contribution_def shape_matches_def)
qed

text \<open>
  C8. For every strategy and leg list \<^verbatim>\<open>calculateNetPremium\<close> is the sum over
  the option legs of \<open>premium * quantity * 100\<close>, added for a bought option and
  subtracted for a sold one, a stock leg adding nothing; over the reals when the leg
  list is valid. For the covered call (stock owned, call sold at a premium of 3,
  quantity 1) it is -300.
\<close>

theorem calculateNetPremium_sum:
  "calculateNetPremium strategy legInstances = net_premium_sum strategy legInstances \<and>
   (well_formed strategy legInstances \<longrightarrow>
      calculateNetPremium strategy legInstances =
        Num (\<Sum>(strategyLeg, leg) \<leftarrow> zip (legs strategy) legInstances. real_contribution strategyLeg leg)) \<and>
   calculateNetPremium covered_call [stock_leg 100, option_leg 100 3] = Num (- 300)"
proof -
  have sum: "calculateNetPremium s ls = net_premium_sum s ls" for s ls
    using premium_loop_sum [of s ls 0 "Num 0"]
    by (cases "net_premium_sum s ls") (simp_all add: calculateNetPremium_def net_premium_sum_def)
  moreover have "calculateNetPremium strategy legInstances =
      Num (\<Sum>(strategyLeg, leg) \<leftarrow> zip (legs strategy) legInstances. real_contribution strategyLeg leg)"
    if "well_formed strategy legInstances"
    using that net_premium_sum_real [of "legs strategy" legInstances]
    by (simp add: sum net_premium_sum_def well_formed_def)
  moreover have "calculateNetPremium covered_call [stock_leg 100, option_leg 100 3] = Num (- 300)"
    by (simp add: calculateNetPremium_def covered_call_def stock_leg_def option_leg_def js_sub_def)
  ultimately show ?thesis by blast
qed

theorem calculateNetPremium_sum_witness:
  "well_formed covered_call [stock_leg 100, option_leg 100 3] \<and>
   calculateNetPremium covered_call [stock_leg 100, option_leg 100 3] =
     Num (\<Sum>(strategyLeg, leg) \<leftarrow> zip (legs covered_call) [stock_leg 100, option_leg 100 3].
            real_contribution strategyLeg leg) \<and>
   calculateNetPremium covered_call [stock_leg 100, option_leg 100 3] = Num (- 300)"
proof -
  have "well_formed covered_call [stock_leg 100, option_leg 100 3]"
    by (simp add: well_formed_def shape_matches_def covered_call_def stock_leg_def option_leg_def)
  then show ?thesis
    using calculateNetPremium_sum [of covered_call "[stock_leg 100, option_leg 100 3]"] by blast
qed

section \<open>What validation accepts\<close>

lemma validate_loop_accumulates:
  "validate_loop strategy legInstances index errs =
     errs @ concat (map (\<lambda>(i, leg). leg_errors strategy i leg)
                     (zip [index..<index + length legInstances] legInstances))"
proof (induction legInstances arbitrary: index errs)
  case Nil
  then show ?case by simp
next
  case (Cons leg rest)
  have "index < index + length (leg # rest)" by simp
  then have "[index..<index + length (leg # rest)] = index # [Suc index..<index + length (leg # rest)]"
    by (rule upt_conv_Cons)
  then have "[index..<index + length (leg # rest)] = index # [Suc index..<Suc index + length rest]"
    by simp
  then show ?case using Cons.IH [of "Suc index"]
    by (simp add: leg_errors_def del: upt_Suc)
qed

lemma validateStrategy_errors:
  "errors (validateStrategy (Some strategy) legInstances) =
     (if length legInstances \<noteq> length (legs strategy)
      then [''Number of legs does not match strategy requirements''] else []) @
     concat (map (\<lambda>(i, leg). leg_errors strategy i leg)
               (zip [0..<length legInstances] legInstances))"
  "isValid (validateStrategy (Some strategy) legInstances) =
     (errors (validateStrategy (Some strategy) legInstances) = [])"
  using validate_loop_accumulates [of strategy legInstances 0]
  by (simp_all add: validateStrategy_def Let_def)

lemma strike_errors_empty:
  "strike_errors leg index = [] \<longleftrightarrow> (\<exists>k. strike leg = Some k \<and> 0 < k)"
  by (cases "strike leg") (auto simp: strike_errors_def)

lemma premium_errors_empty:
  "premium_errors leg index = [] \<longleftrightarrow> (\<exists>p. premium leg = Some p \<and> 0 < p)"
  by (cases "premium leg") (auto simp: premium_errors_def)

text \<open>
  What the code accepts: a leg list of the strategy's length whose option legs each
  have a strike above zero and a premium above zero. Every violation adds its message:
  the loop goes on after an error.
\<close>

lemma validateStrategy_accepts:
  assumes "length legInstances = length (legs strategy)"
    and "\<And>i. i < length legInstances \<Longrightarrow> type (legs strategy ! i) \<noteq> Stock \<Longrightarrow>
           (\<exists>k. strike (legInstances ! i) = Some k \<and> 0 < k) \<and>
           (\<exists>p. premium (legInstances ! i) = Some p \<and> 0 < p)"
  shows "validateStrategy (Some strategy) legInstances = \<lparr>isValid = True, errors = []\<rparr>"
proof -
  have "leg_errors strategy i leg = []"
    if "(i, leg) \<in> set (zip [0..<length legInstances] legInstances)" for i leg
  proof -
    from that have "i < length legInstances" "leg = legInstances ! i"
      by (auto simp: set_zip)
    with assms(2) [of i] show ?thesis
      by (auto simp: leg_errors_def strike_errors_empty premium_errors_empty)
  qed
  then have "errors (validateStrategy (Some strategy) legInstances) = []"
    using assms(1) by (auto simp: validateStrategy_errors(1))
  then show ?thesis
    using validateStrategy_errors(2) [of strategy legInstances]
    by (cases "validateStrategy (Some strategy) legInstances") simp
qed

lemma validateStrategy_accumulates:
  "validateStrategy (Some bull_call_spread) [option_leg 0 (- 1)] =
     \<lparr>isValid = False,
      errors = [''Number of legs does not match strategy requirements'',
                ''Leg 1: Invalid strike price'', ''Leg 1: Invalid premium'']\<rparr>"
  by (simp add: validateStrategy_def bull_call_spread_def option_leg_def strike_errors_def premium_errors_def)

lemma validateStrategy_null:
  "validateStrategy None legInstances = \<lparr>isValid = False, errors = [''Invalid strategy selected'']\<rparr>"
  by (simp add: validateStrategy_def)

text \<open>
  C4 fails on a premium of exactly 0. For the long call with strike 100 and premium 0,
  a leg list of the right length whose option leg has \<open>strike > 0\<close> and
  \<open>premium \<ge> 0\<close>, \<^verbatim>\<open>validateStrategy\<close> returns \<^verbatim>\<open>isValid = false\<close>
  with the error "Leg 1: Invalid premium": \<^verbatim>\<open>!leg.premium\<close> is true of zero.
\<close>

theorem validateStrategy_zero_premium:
  "validateStrategy (Some long_call) [option_leg 100 0] =
     \<lparr>isValid = False, errors = [''Leg 1: Invalid premium'']\<rparr>"
  by (simp add: validateStrategy_def long_call_def option_leg_def strike_errors_def premium_errors_def)

end
